theory Spec2Isabelle
  imports
    Complex_Main
    "HOL-Library.AList"
    "HOL-Library.Char_ord"
    "HOL-Library.List_Lexorder"
    "HOL-Library.Multiset"
    "HOL-Library.Product_Lexorder"
begin

section \<open>Values\<close>

text \<open>
  A JavaScript number is a finite value or one of the two infinities. The finite doubles
  are modelled by the reals: IEEE rounding is abstracted, every product and sum below is
  the exact one. \<open>NaN\<close> is the result \<open>None\<close> of an operation; no request body can carry
  it, since \<open>JSON.parse\<close> yields finite numbers and, for a literal out of the double range
  such as \<open>1e999\<close>, an infinity.
\<close>

datatype jsnum = NegInf | Fin real | PosInf

fun js_add :: "jsnum \<Rightarrow> jsnum \<Rightarrow> jsnum option" where
  "js_add (Fin a) (Fin b) = Some (Fin (a + b))"
| "js_add PosInf NegInf = None"
| "js_add NegInf PosInf = None"
| "js_add PosInf _ = Some PosInf"
| "js_add _ PosInf = Some PosInf"
| "js_add NegInf _ = Some NegInf"
| "js_add _ NegInf = Some NegInf"

fun js_mul :: "jsnum \<Rightarrow> jsnum \<Rightarrow> jsnum option" where
  "js_mul (Fin a) (Fin b) = Some (Fin (a * b))"
| "js_mul (Fin a) PosInf = (if a = 0 then None else Some (if 0 < a then PosInf else NegInf))"
| "js_mul (Fin a) NegInf = (if a = 0 then None else Some (if 0 < a then NegInf else PosInf))"
| "js_mul PosInf (Fin b) = (if b = 0 then None else Some (if 0 < b then PosInf else NegInf))"
| "js_mul NegInf (Fin b) = (if b = 0 then None else Some (if 0 < b then NegInf else PosInf))"
| "js_mul PosInf PosInf = Some PosInf"
| "js_mul NegInf NegInf = Some PosInf"
| "js_mul PosInf NegInf = Some NegInf"
| "js_mul NegInf PosInf = Some NegInf"

text \<open>The values a field of a JSON request body can have; \<open>JUndefined\<close> is a missing field.\<close>

datatype jsval = JUndefined | JNull | JBool bool | JNum jsnum | JStr string

datatype jstype = TUndefined | TObject | TBoolean | TNumber | TString

fun typeof :: "jsval \<Rightarrow> jstype" where
  "typeof JUndefined = TUndefined"
| "typeof JNull = TObject"
| "typeof (JBool _) = TBoolean"
| "typeof (JNum _) = TNumber"
| "typeof (JStr _) = TString"

text \<open>\<open>!v\<close> is \<open>\<not> truthy v\<close>.\<close>

fun truthy :: "jsval \<Rightarrow> bool" where
  "truthy JUndefined = False"
| "truthy JNull = False"
| "truthy (JBool b) = b"
| "truthy (JNum n) = (n \<noteq> Fin 0)"
| "truthy (JStr s) = (s \<noteq> [])"

text \<open>The digit \<open>d\<close>, for \<open>d < 10\<close>; \<open>string_of_nat\<close> asks for no other.\<close>

definition digit_char :: "nat \<Rightarrow> char" where
  "digit_char d = ''0123456789'' ! d"

text \<open>\<open>Number.prototype.toString\<close> on a row id, a non-negative integer: its decimal digits.\<close>

function string_of_nat :: "nat \<Rightarrow> string" where
  "string_of_nat n = (if n < 10 then [digit_char n] else string_of_nat (n div 10) @ [digit_char (n mod 10)])"
  by pat_completeness auto
termination
  by (relation "measure id") auto

declare string_of_nat.simps [simp del]

datatype error = RedisError | SqlError | TypeError

section \<open>The Rank Store: a Redis sorted set\<close>

text \<open>
  The sorted set under \<open>LEADERBOARD_KEY\<close> is an association list from member to score,
  one entry per member. Redis orders it by score and, among equal scores, by the bytes of
  the member; \<open>REV\<close> reads that order backwards.
\<close>

type_synonym zset = "(string \<times> jsnum) list"

fun score_key :: "jsnum \<Rightarrow> int \<times> real" where
  "score_key NegInf = (-1, 0)"
| "score_key (Fin r) = (0, r)"
| "score_key PosInf = (1, 0)"

definition zrev :: "zset \<Rightarrow> (string \<times> jsnum) list" where
  "zrev zs = rev (sort_key (\<lambda>e. (score_key (snd e), fst e)) zs)"

definition zScore :: "zset \<Rightarrow> string \<Rightarrow> jsnum option" where
  "zScore zs m = map_of zs m"

text \<open>\<open>ZADD\<close> sets the score of a member, new or not.\<close>

definition zAdd :: "zset \<Rightarrow> jsnum \<Rightarrow> string \<Rightarrow> zset" where
  "zAdd zs s m = AList.update m s zs"

text \<open>
  \<open>ZINCRBY\<close> adds to the score of a member, an absent member counting as 0, and fails when
  the sum is not a number.
\<close>

definition zIncrBy :: "zset \<Rightarrow> jsnum \<Rightarrow> string \<Rightarrow> error + zset" where
  "zIncrBy zs incr m =
     (case js_add (case map_of zs m of None \<Rightarrow> Fin 0 | Some s \<Rightarrow> s) incr of
        None \<Rightarrow> Inl RedisError
      | Some s' \<Rightarrow> Inr (AList.update m s' zs))"

fun index_of :: "'a \<Rightarrow> 'a list \<Rightarrow> nat option" where
  "index_of x [] = None"
| "index_of x (y # ys) = (if x = y then Some 0 else map_option Suc (index_of x ys))"

definition zRevRank :: "zset \<Rightarrow> string \<Rightarrow> nat option" where
  "zRevRank zs m = index_of m (map fst (zrev zs))"

text \<open>
  \<open>ZRANGE key start stop REV WITHSCORES\<close>: a negative index counts from the end, a start
  still negative is 0, and the stop is cut at the last element.
\<close>

definition zRangeWithScores :: "zset \<Rightarrow> int \<Rightarrow> int \<Rightarrow> (string \<times> jsnum) list" where
  "zRangeWithScores zs start stop =
     (let llen = int (length zs);
          start1 = (if start < 0 then llen + start else start);
          stop1 = (if stop < 0 then llen + stop else stop);
          start2 = (if start1 < 0 then 0 else start1)
      in if start2 > stop1 \<or> start2 \<ge> llen then []
         else let stop2 = (if stop1 \<ge> llen then llen - 1 else stop1)
              in take (nat (stop2 - start2 + 1)) (drop (nat start2) (zrev zs)))"

section \<open>The Prize Pool: a Redis string\<close>

text \<open>
  The value under \<open>PRIZE_POOL_KEY\<close>, \<open>None\<close> while the key does not exist.
  \<open>INCRBYFLOAT\<close> counts an absent key as 0 and refuses an increment that is not finite.
\<close>

definition pool_value :: "real option \<Rightarrow> real" where
  "pool_value p = (case p of None \<Rightarrow> 0 | Some v \<Rightarrow> v)"

definition incrByFloat :: "real option \<Rightarrow> jsnum option \<Rightarrow> error + real option" where
  "incrByFloat p incr =
     (case incr of Some (Fin v) \<Rightarrow> Inr (Some (pool_value p + v)) | _ \<Rightarrow> Inl RedisError)"

section \<open>State\<close>

record player =
  p_id :: nat
  p_name :: string
  p_country :: string
  p_country_code :: string

record state =
  players :: "player list"
  next_id :: nat
  leaderboard :: zset
  prize_pool :: "real option"

section \<open>The settlement job\<close>

definition rewards :: "real list" where
  "rewards = [0.2, 0.15, 0.1]"

text \<open>
  The loop of the scheduled handler over the fetched \<open>leaderboard\<close>, from position \<open>i\<close>.
  It returns the sorted set, the \<open>zIncrBy\<close> calls it made (member and reward, in order)
  and the error that stopped it, if any.
\<close>

fun reward_loop ::
  "real \<Rightarrow> nat \<Rightarrow> real \<Rightarrow> (string \<times> jsnum) list \<Rightarrow> zset \<Rightarrow> zset \<times> (string \<times> real) list \<times> error option"
where
  "reward_loop prizePool i remainingPrize [] zs = (zs, [], None)"
| "reward_loop prizePool i remainingPrize (e # es) zs =
     (let reward = (if i < 3 then prizePool * rewards ! i else remainingPrize * 0.00567)
      in case zIncrBy zs (Fin reward) (fst e) of
           Inl err \<Rightarrow> (zs, [], Some err)
         | Inr zs' \<Rightarrow>
             (case reward_loop prizePool (i + 1) (remainingPrize - reward) es zs' of
                (zs'', applied, r) \<Rightarrow> (zs'', (fst e, reward) # applied, r)))"

text \<open>
  The handler: read the pool (\<open>parseFloat(get || '0')\<close>), fetch the top 100, run the loop
  when there is an entry, reset the pool. An error leaves the \<open>try\<close> block before the reset.
\<close>

definition settlement :: "state \<Rightarrow> state \<times> (string \<times> real) list" where
  "settlement st =
     (let prizePool = pool_value (prize_pool st);
          lb = zRangeWithScores (leaderboard st) 0 99
      in case (if length lb > 0 then reward_loop prizePool 0 prizePool lb (leaderboard st)
               else (leaderboard st, [], None)) of
           (zs, applied, Some err) \<Rightarrow> (st\<lparr>leaderboard := zs\<rparr>, applied)
         | (zs, applied, None) \<Rightarrow> (st\<lparr>leaderboard := zs, prize_pool := Some 0\<rparr>, applied))"


section \<open>What the program does not define\<close>

text \<open>
  The handlers leave some things to MySQL, to the JavaScript runtime and to the timing of
  the connections; they are parameters of the model, and every general statement below
  holds for all of them:
  \<^item> \<open>sql_id_eq n v\<close>: MySQL's \<open>id = ?\<close> for the row id \<open>n\<close> and the bound parameter \<open>v\<close>
    (its coercion of strings and booleans to numbers);
  \<^item> \<open>sql_text_eq\<close> and \<open>sql_like\<close>: \<open>column = ?\<close> and \<open>column LIKE ?\<close> on text, which depend
    on the collation (first argument the column, second the parameter);
  \<^item> \<open>num_toString\<close>: \<open>Number.prototype.toString\<close> on the number of a request body;
  \<^item> \<open>completion\<close>: the order in which the continuations of the neighbourhood callbacks
    run, given their program order. The queries go through a connection pool, so any
    order can occur.
  Connection failures are not modelled. The length limits of the columns are not modelled.
\<close>

record env =
  sql_id_eq :: "nat \<Rightarrow> jsval \<Rightarrow> bool"
  sql_text_eq :: "string \<Rightarrow> string \<Rightarrow> bool"
  sql_like :: "string \<Rightarrow> string \<Rightarrow> bool"
  num_toString :: "jsnum \<Rightarrow> string"
  completion :: "(nat \<times> nat) list \<Rightarrow> (nat \<times> nat) list"

text \<open>\<open>v.toString()\<close>; it throws on \<open>null\<close> and \<open>undefined\<close>.\<close>

fun js_toString :: "env \<Rightarrow> jsval \<Rightarrow> error + string" where
  "js_toString x JUndefined = Inl TypeError"
| "js_toString x JNull = Inl TypeError"
| "js_toString x (JBool b) = Inr (if b then ''true'' else ''false'')"
| "js_toString x (JNum n) = Inr (num_toString x n)"
| "js_toString x (JStr s) = Inr s"

datatype 'a response = Ok 'a | Created 'a | BadRequest | NotFound | Conflict | ServerError

section \<open>Recording an earning\<close>

text \<open>\<open>SELECT id FROM players WHERE id = ?\<close>\<close>

definition findById :: "env \<Rightarrow> state \<Rightarrow> jsval \<Rightarrow> player list" where
  "findById x st v = filter (\<lambda>p. sql_id_eq x (p_id p) v) (players st)"

text \<open>
  \<open>POST /leaderboard/earn\<close> of \<open>app.ts\<close>. \<open>BadRequest\<close> is status 400 (InvalidInput),
  \<open>NotFound\<close> 404, \<open>ServerError\<close> the 500 of the \<open>catch\<close> block.
\<close>

definition earn :: "env \<Rightarrow> jsval \<Rightarrow> jsval \<Rightarrow> state \<Rightarrow> unit response \<times> state" where
  "earn x playerId amount st =
     (if \<not> truthy playerId \<or> typeof amount \<noteq> TNumber then (BadRequest, st)
      else if findById x st playerId = [] then (NotFound, st)
      else case (amount, js_toString x playerId) of
             (JNum a, Inr member) \<Rightarrow>
               (case zIncrBy (leaderboard st) a member of
                  Inl e \<Rightarrow> (ServerError, st)
                | Inr zs \<Rightarrow>
                    (case incrByFloat (prize_pool st) (js_mul a (Fin 0.02)) of
                       Inl e \<Rightarrow> (ServerError, st\<lparr>leaderboard := zs\<rparr>)
                     | Inr p \<Rightarrow> (Ok (), st\<lparr>leaderboard := zs, prize_pool := p\<rparr>)))
           | _ \<Rightarrow> (ServerError, st))"

text \<open>
  The handler of the same route in the compiled router module (\<open>router.post\<close>): the same
  validation, no look-up of the player.
\<close>

definition earn_router :: "env \<Rightarrow> jsval \<Rightarrow> jsval \<Rightarrow> state \<Rightarrow> unit response \<times> state" where
  "earn_router x playerId amount st =
     (if \<not> truthy playerId \<or> typeof amount \<noteq> TNumber then (BadRequest, st)
      else case (amount, js_toString x playerId) of
             (JNum a, Inr member) \<Rightarrow>
               (case zIncrBy (leaderboard st) a member of
                  Inl e \<Rightarrow> (ServerError, st)
                | Inr zs \<Rightarrow>
                    (case incrByFloat (prize_pool st) (js_mul a (Fin 0.02)) of
                       Inl e \<Rightarrow> (ServerError, st\<lparr>leaderboard := zs\<rparr>)
                     | Inr p \<Rightarrow> (Ok (), st\<lparr>leaderboard := zs, prize_pool := p\<rparr>)))
           | _ \<Rightarrow> (ServerError, st))"

section \<open>Registering a player\<close>






section \<open>The top-N view\<close>

record top_entry =
  t_ranking :: nat
  t_id :: string
  t_playerName :: "string option"
  t_country :: "string option"
  t_countryCode :: "string option"
  t_money :: jsnum

text \<open>
  \<open>getTopRankingPlayers\<close>. The rows come from \<open>WHERE id IN (?)\<close> with the fetched members
  as the parameter; the client writes an empty array as the empty list \<open>IN ()\<close>, which
  MySQL refuses, so the query throws when nothing is ranked. The profile of an entry is
  the first of these rows whose \<open>id.toString()\<close> is the member.
\<close>

definition getTopRankingPlayers :: "env \<Rightarrow> state \<Rightarrow> error + top_entry list" where
  "getTopRankingPlayers x st =
     (let lb = zRangeWithScores (leaderboard st) 0 99;
          playerIds = map fst lb
      in if playerIds = [] then Inl SqlError
         else let rows = filter (\<lambda>p. \<exists>m \<in> set playerIds. sql_id_eq x (p_id p) (JStr m)) (players st)
              in Inr (map (\<lambda>(index, player).
                        let playerDetails = find (\<lambda>p. string_of_nat (p_id p) = fst player) rows
                        in \<lparr>t_ranking = index + 1, t_id = fst player,
                            t_playerName = map_option p_name playerDetails,
                            t_country = map_option p_country playerDetails,
                            t_countryCode = map_option p_country_code playerDetails,
                            t_money = snd player\<rparr>)
                      (zip [0..<length lb] lb)))"

section \<open>The search results of the combined view\<close>

record details =
  d_name :: "string option"
  d_country :: "string option"
  d_country_code :: "string option"

definition getPlayerDetails :: "env \<Rightarrow> state \<Rightarrow> string \<Rightarrow> details" where
  "getPlayerDetails x st playerId =
     (if playerId = [] then \<lparr>d_name = None, d_country = None, d_country_code = None\<rparr>
      else case filter (\<lambda>p. sql_id_eq x (p_id p) (JStr playerId)) (players st) of
             [] \<Rightarrow> \<lparr>d_name = None, d_country = None, d_country_code = None\<rparr>
           | p # _ \<Rightarrow> \<lparr>d_name = Some (p_name p), d_country = Some (p_country p),
                        d_country_code = Some (p_country_code p)\<rparr>)"

record neighbour =
  n_ranking :: nat
  n_id :: string
  n_playerName :: string
  n_country :: string
  n_countryCode :: string
  n_money :: jsnum

record search_result =
  r_id :: string
  r_ranking :: nat
  r_playerName :: string
  r_country :: string
  r_countryCode :: string
  r_money :: jsnum
  prevPlayers :: "neighbour list"
  nextPlayers :: "neighbour list"

text \<open>
  \<open>getSearchResults\<close> maps an \<open>async\<close> callback over the players and awaits all of them.
  Each callback runs up to its first \<open>await\<close> when \<open>map\<close> calls it, so the test and the
  insertion on \<open>includedPlayerIds\<close> at its head happen for every player, in list order,
  before anything else: \<open>claim_players\<close>. A player already in the set yields \<open>null\<close>.
\<close>

fun claim_players :: "player list \<Rightarrow> string list \<Rightarrow> player option list \<times> string list" where
  "claim_players [] inc = ([], inc)"
| "claim_players (p # ps) inc =
     (if string_of_nat (p_id p) \<in> set inc
      then (case claim_players ps inc of (r, inc') \<Rightarrow> (None # r, inc'))
      else (case claim_players ps (inc @ [string_of_nat (p_id p)]) of (r, inc') \<Rightarrow> (Some p # r, inc')))"

text \<open>
  Then the callback reads the Rank Store, which nothing in the request writes: the rank,
  the score (\<open>Number(score)\<close>), and the window from \<open>startRank\<close> to \<open>endRank\<close>. A player
  without a rank yields \<open>null\<close>.
\<close>

record lookup =
  l_player :: player
  l_rank :: nat
  l_money :: jsnum
  l_startRank :: nat
  l_surrounding :: "(string \<times> jsnum) list"

definition look_up :: "state \<Rightarrow> player \<Rightarrow> lookup option" where
  "look_up st p =
     (case zRevRank (leaderboard st) (string_of_nat (p_id p)) of
        None \<Rightarrow> None
      | Some rank \<Rightarrow>
          let startRank = (if int rank - 3 < 0 then 0 else int rank - 3);
              endRank = int rank + 2
          in Some \<lparr>l_player = p, l_rank = rank,
                   l_money = (case zScore (leaderboard st) (string_of_nat (p_id p)) of
                                None \<Rightarrow> Fin 0 | Some s \<Rightarrow> s),
                   l_startRank = nat startRank,
                   l_surrounding = zRangeWithScores (leaderboard st) startRank endRank\<rparr>)"

text \<open>
  The inner callback for the entry \<open>index\<close> of the window of the player number \<open>i\<close>, after
  its \<open>await getPlayerDetails\<close>: one step without interruption on the shared set \<open>inc\<close> and
  on the lists, here the pushes \<open>out\<close> in the order they happen, each with the player whose
  list it goes to and the list.
\<close>

datatype side = Prev | Next

definition candidate ::
  "env \<Rightarrow> state \<Rightarrow> lookup option list \<Rightarrow> string list \<times> (nat \<times> side \<times> neighbour) list \<Rightarrow> nat \<times> nat \<Rightarrow>
   string list \<times> (nat \<times> side \<times> neighbour) list"
where
  "candidate x st ls acc t =
     (case (t, acc) of ((i, index), (inc, out)) \<Rightarrow>
        if i < length ls then
          (case ls ! i of
             None \<Rightarrow> acc
           | Some l \<Rightarrow>
               if index < length (l_surrounding l) then
                 (let player = l_surrounding l ! index;
                      playerDetails = getPlayerDetails x st (fst player)
                  in case (d_name playerDetails, d_country playerDetails, d_country_code playerDetails) of
                       (Some name, Some country, Some code) \<Rightarrow>
                         (let item = \<lparr>n_ranking = l_startRank l + index + 1, n_id = fst player,
                                      n_playerName = name, n_country = country,
                                      n_countryCode = code, n_money = snd player\<rparr>
                          in if l_startRank l + index < l_rank l then
                               (if fst player \<in> set inc then acc
                                else (inc @ [fst player], out @ [(i, Prev, item)]))
                             else if l_startRank l + index > l_rank l then
                               (if fst player \<in> set inc then acc
                                else (inc @ [fst player], out @ [(i, Next, item)]))
                             else acc)
                     | _ \<Rightarrow> acc)
               else acc)
        else acc)"

text \<open>The inner callbacks in program order: player by player, entry by entry.\<close>

definition tasks :: "lookup option list \<Rightarrow> (nat \<times> nat) list" where
  "tasks ls =
     concat (map (\<lambda>i. case ls ! i of
                         None \<Rightarrow> []
                       | Some l \<Rightarrow> map (\<lambda>index. (i, index)) [0..<length (l_surrounding l)])
                 [0..<length ls])"

definition pushed :: "(nat \<times> side \<times> neighbour) list \<Rightarrow> nat \<Rightarrow> side \<Rightarrow> neighbour list" where
  "pushed out i s = map (\<lambda>e. snd (snd e)) (filter (\<lambda>e. fst e = i \<and> fst (snd e) = s) out)"

definition getSearchResults :: "env \<Rightarrow> state \<Rightarrow> player list \<Rightarrow> search_result list" where
  "getSearchResults x st ps =
     (case claim_players ps [] of
        (claimed, inc) \<Rightarrow>
          let ls = map (\<lambda>c. case c of None \<Rightarrow> None | Some p \<Rightarrow> look_up st p) claimed;
              out = snd (foldl (candidate x st ls) (inc, []) (completion x (tasks ls)))
          in concat (map (\<lambda>i. case ls ! i of
                                 None \<Rightarrow> []
                               | Some l \<Rightarrow>
                                   [\<lparr>r_id = string_of_nat (p_id (l_player l)),
                                     r_ranking = l_rank l + 1,
                                     r_playerName = p_name (l_player l),
                                     r_country = p_country (l_player l),
                                     r_countryCode = p_country_code (l_player l),
                                     r_money = l_money l,
                                     prevPlayers = pushed out i Prev,
                                     nextPlayers = pushed out i Next\<rparr>])
                         [0..<length ls]))"

section \<open>The combined view\<close>

record combined =
  topRankingPlayers :: "top_entry list"
  searchResults :: "search_result list option"

text \<open>
  \<open>GET /leaderboard/top-ranking-data\<close>. The query is absent (\<open>None\<close>) or a string. The
  matched players without a rank are dropped, the others sorted by rank.
\<close>

text \<open>\<open>SELECT \<dots> FROM players WHERE name LIKE ?\<close> with \<open>%query%\<close>\<close>

definition name_matches :: "env \<Rightarrow> string \<Rightarrow> state \<Rightarrow> player list" where
  "name_matches x q st = filter (\<lambda>p. sql_like x (p_name p) (''%'' @ q @ ''%'')) (players st)"

definition top_ranking_data :: "env \<Rightarrow> string option \<Rightarrow> state \<Rightarrow> combined response" where
  "top_ranking_data x query st =
     (case getTopRankingPlayers x st of
        Inl e \<Rightarrow> ServerError
      | Inr topPlayers \<Rightarrow>
          (case query of
             None \<Rightarrow> Ok \<lparr>topRankingPlayers = topPlayers, searchResults = None\<rparr>
           | Some q \<Rightarrow>
               if q = [] then Ok \<lparr>topRankingPlayers = topPlayers, searchResults = None\<rparr>
               else let ps = name_matches x q st
                    in if ps = [] then Ok \<lparr>topRankingPlayers = topPlayers, searchResults = None\<rparr>
                       else let playersWithRanks =
                                  map (\<lambda>p. case zRevRank (leaderboard st) (string_of_nat (p_id p)) of
                                              None \<Rightarrow> None | Some rank \<Rightarrow> Some (p, rank + 1)) ps;
                                filteredPlayers = sort_key snd (concat (map (\<lambda>r. case r of None \<Rightarrow> [] | Some e \<Rightarrow> [e]) playersWithRanks))
                            in Ok \<lparr>topRankingPlayers = topPlayers,
                                   searchResults = Some (getSearchResults x st (map fst filteredPlayers))\<rparr>))"

section \<open>The search view\<close>

text \<open>
  \<open>GET /leaderboard/search\<close> in the version that repairs the Rank Store. Its
  \<open>getPlayerDetails\<close> returns the row itself, or \<open>[]\<close>.
\<close>

definition getPlayerDetails_row :: "env \<Rightarrow> state \<Rightarrow> string \<Rightarrow> player option" where
  "getPlayerDetails_row x st playerId =
     (if playerId = [] then None
      else case filter (\<lambda>p. sql_id_eq x (p_id p) (JStr playerId)) (players st) of
             [] \<Rightarrow> None
           | p # _ \<Rightarrow> Some p)"

record surrounding =
  s_prevPlayers :: "neighbour list"
  s_nextPlayers :: "neighbour list"

record search_row =
  s_ranking :: "nat option"
  s_playerName :: string
  s_country :: string
  s_countryCode :: string
  s_money :: jsnum
  s_surroundingPlayers :: "surrounding option"

text \<open>
  The inner callback of this version tests \<open>playerDetails.length === 0\<close>, which holds for
  \<open>[]\<close> only, and then reads \<open>playerDetails[0].name\<close> to build the item to push. A row has
  no property \<open>0\<close>, so for a window entry with a profile, before or after the rank, the read
  throws. \<open>window_throws\<close> says that some entry of the window does.
\<close>

definition window_throws :: "env \<Rightarrow> state \<Rightarrow> nat \<Rightarrow> (string \<times> jsnum) list \<Rightarrow> bool" where
  "window_throws x st rank sp =
     list_ex (\<lambda>index. getPlayerDetails_row x st (fst (sp ! index)) \<noteq> None \<and>
                      (int rank - 3 + int index < int rank \<or> int rank - 3 + int index > int rank))
             [0..<length sp]"

text \<open>
  The commands reach Redis over one connection in the order they are sent: the ranks of
  all matched players, then their scores, then per player, in list order, the \<open>ZADD\<close> of
  a player without a rank or the \<open>ZRANGE\<close> of a player with one. \<open>search_callbacks\<close> is
  this last pass, over the players with the rank and score read before; it returns the
  sorted set and what each callback's promise settles to.
\<close>

fun search_callbacks ::
  "env \<Rightarrow> state \<Rightarrow> (player \<times> nat option \<times> jsnum option) list \<Rightarrow> zset \<Rightarrow> zset \<times> (error + search_row) list"
where
  "search_callbacks x st [] zs = (zs, [])"
| "search_callbacks x st ((p, None, score) # rest) zs =
     (case search_callbacks x st rest (zAdd zs (Fin 0) (string_of_nat (p_id p))) of
        (zs', rs) \<Rightarrow>
          (zs', Inr \<lparr>s_ranking = None, s_playerName = p_name p, s_country = p_country p,
                     s_countryCode = p_country_code p, s_money = Fin 0,
                     s_surroundingPlayers = None\<rparr> # rs))"
| "search_callbacks x st ((p, Some rank, score) # rest) zs =
     (let surroundingPlayers = zRangeWithScores zs (int rank - 3) (int rank + 2);
          r = (if window_throws x st rank surroundingPlayers then Inl TypeError
               else Inr \<lparr>s_ranking = Some (rank + 1), s_playerName = p_name p,
                         s_country = p_country p, s_countryCode = p_country_code p,
                         s_money = (case score of None \<Rightarrow> Fin 0 | Some s \<Rightarrow> s),
                         s_surroundingPlayers =
                           Some \<lparr>s_prevPlayers = [], s_nextPlayers = []\<rparr>\<rparr>)
      in case search_callbacks x st rest zs of (zs', rs) \<Rightarrow> (zs', r # rs))"

fun all_fulfilled :: "(error + 'a) list \<Rightarrow> 'a list option" where
  "all_fulfilled [] = Some []"
| "all_fulfilled (Inl e # rs) = None"
| "all_fulfilled (Inr v # rs) = map_option ((#) v) (all_fulfilled rs)"

text \<open>\<open>SELECT \<dots> FROM players WHERE name LIKE ? OR country LIKE ?\<close> with \<open>%query%\<close> twice\<close>

definition search_matches :: "env \<Rightarrow> string \<Rightarrow> state \<Rightarrow> player list" where
  "search_matches x q st =
     filter (\<lambda>p. sql_like x (p_name p) (''%'' @ q @ ''%'') \<or>
                 sql_like x (p_country p) (''%'' @ q @ ''%'')) (players st)"

definition leaderboard_search :: "env \<Rightarrow> string option \<Rightarrow> state \<Rightarrow> search_row list response \<times> state" where
  "leaderboard_search x query st =
     (case query of
        None \<Rightarrow> (BadRequest, st)
      | Some q \<Rightarrow>
          if q = [] then (BadRequest, st)
          else let ps = search_matches x q st
               in if ps = [] then (Ok [], st)
                  else case search_callbacks x st
                              (map (\<lambda>p. (p, zRevRank (leaderboard st) (string_of_nat (p_id p)),
                                             zScore (leaderboard st) (string_of_nat (p_id p)))) ps)
                              (leaderboard st) of
                         (zs, rs) \<Rightarrow>
                           (case all_fulfilled rs of
                              None \<Rightarrow> (ServerError, st\<lparr>leaderboard := zs\<rparr>)
                            | Some results \<Rightarrow> (Ok results, st\<lparr>leaderboard := zs\<rparr>)))"

section \<open>An instance of the parameters\<close>

definition contains :: "string \<Rightarrow> string \<Rightarrow> bool" where
  "contains q s = list_ex (\<lambda>i. take (length q) (drop i s) = q) [0..<Suc (length s)]"

text \<open>
  Numbers and decimal strings equal to the id select the row, text is compared as it is,
  \<open>LIKE '%q%'\<close> is containment, integers print in decimal, and the continuations run in
  program order.
\<close>

definition std :: env where
  "std = \<lparr>sql_id_eq = (\<lambda>n v. v = JNum (Fin (real n)) \<or> v = JStr (string_of_nat n)),
          sql_text_eq = (\<lambda>a b. a = b),
          sql_like = (\<lambda>s pat. case pat of
                                 [] \<Rightarrow> False
                               | c # cs \<Rightarrow> c = CHR ''%'' \<and> cs \<noteq> [] \<and> last cs = CHR ''%'' \<and>
                                            contains (butlast cs) s),
          num_toString = (\<lambda>n. case n of Fin r \<Rightarrow> string_of_nat (nat \<lfloor>r\<rfloor>)
                                       | PosInf \<Rightarrow> ''Infinity'' | NegInf \<Rightarrow> ''-Infinity''),
          completion = (\<lambda>ts. ts)\<rparr>"




section \<open>Auxiliary notions for the statements\<close>

text \<open>The reward of loop position \<open>i\<close> when \<open>rem\<close> remains.\<close>

definition reward_at :: "real \<Rightarrow> nat \<Rightarrow> real \<Rightarrow> real" where
  "reward_at P i rem = (if i < 3 then P * rewards ! i else rem * 0.00567)"

text \<open>The sorted set after \<open>ZINCRBY\<close> of a member by a finite amount, which cannot fail.\<close>

definition add_reward :: "zset \<Rightarrow> real \<Rightarrow> string \<Rightarrow> zset" where
  "add_reward zs r m =
     AList.update m (case (case map_of zs m of None \<Rightarrow> Fin 0 | Some s \<Rightarrow> s) of
                       Fin a \<Rightarrow> Fin (a + r) | NegInf \<Rightarrow> NegInf | PosInf \<Rightarrow> PosInf) zs"

definition apply_rewards :: "zset \<Rightarrow> (string \<times> real) list \<Rightarrow> zset" where
  "apply_rewards zs applied = foldl (\<lambda>z (m, r). add_reward z r m) zs applied"

text \<open>Scenario B: two ranked players with scores 500 and 300, and a pool of 100.\<close>

definition ann :: player where
  "ann = \<lparr>p_id = 1, p_name = ''Ann'', p_country = ''US'', p_country_code = ''US''\<rparr>"

definition bob :: player where
  "bob = \<lparr>p_id = 2, p_name = ''Bob'', p_country = ''TR'', p_country_code = ''TR''\<rparr>"

definition scenarioB :: state where
  "scenarioB = \<lparr>players = [ann, bob], next_id = 3,
     leaderboard = [(''1'', Fin 500), (''2'', Fin 300)], prize_pool = Some 100\<rparr>"

text \<open>A state with one hundred ranked members and a pool of 100.\<close>

definition hundred :: state where
  "hundred = \<lparr>players = [], next_id = 1,
     leaderboard = map (\<lambda>i. (string_of_nat i, Fin 0)) [0..<100], prize_pool = Some 100\<rparr>"

text \<open>Scenario A: the state after registering Ada in the empty system.\<close>

definition registered :: state where
  "registered = \<lparr>players = [\<lparr>p_id = 1, p_name = ''Ada'', p_country = ''US'', p_country_code = ''US''\<rparr>],
     next_id = 2, leaderboard = [(''1'', Fin 0)], prize_pool = None\<rparr>"

text \<open>A state in which Bob is registered and has no entry in the Rank Store.\<close>

definition orphan :: state where
  "orphan = \<lparr>players = [ann, bob], next_id = 3,
     leaderboard = [(''1'', Fin 500)], prize_pool = Some 100\<rparr>"

text \<open>
  A state in which Ann is ranked and Anna, whose name the query \<open>An\<close> matches as well, has
  no entry in the Rank Store.
\<close>

definition anna :: player where
  "anna = \<lparr>p_id = 2, p_name = ''Anna'', p_country = ''SE'', p_country_code = ''SE''\<rparr>"

definition anns :: state where
  "anns = \<lparr>players = [ann, anna], next_id = 3,
     leaderboard = [(''1'', Fin 500)], prize_pool = Some 100\<rparr>"

text \<open>A state with six ranked players, Ann first.\<close>

definition six :: state where
  "six = \<lparr>players = [ann, bob,
                      \<lparr>p_id = 3, p_name = ''Cid'', p_country = ''FR'', p_country_code = ''FR''\<rparr>,
                      \<lparr>p_id = 4, p_name = ''Dag'', p_country = ''NO'', p_country_code = ''NO''\<rparr>,
                      \<lparr>p_id = 5, p_name = ''Eve'', p_country = ''DE'', p_country_code = ''DE''\<rparr>,
                      \<lparr>p_id = 6, p_name = ''Fay'', p_country = ''IE'', p_country_code = ''IE''\<rparr>],
           next_id = 7,
           leaderboard = [(''1'', Fin 600), (''2'', Fin 500), (''3'', Fin 400), (''4'', Fin 300),
                          (''5'', Fin 200), (''6'', Fin 100)],
           prize_pool = Some 100\<rparr>"

text \<open>
  A state whose Identity Store holds a row with id 0 (\<open>AUTO_INCREMENT\<close> never gives this
  id; the row is one inserted with the id spelled out), ranked with score 0.
\<close>

definition zero_row :: state where
  "zero_row = \<lparr>players = [\<lparr>p_id = 0, p_name = ''Zed'', p_country = ''NZ'', p_country_code = ''NZ''\<rparr>],
     next_id = 1, leaderboard = [(''0'', Fin 0)], prize_pool = None\<rparr>"

text \<open>The number of entries of a sorted set under one member.\<close>

definition occurrences :: "zset \<Rightarrow> string \<Rightarrow> nat" where
  "occurrences zs m = length (filter (\<lambda>e. fst e = m) zs)"

text \<open>
  What \<open>leaderboard_search\<close> hands to \<open>search_callbacks\<close>, and the members of the players
  without a rank among them.
\<close>

definition search_input ::
  "env \<Rightarrow> string \<Rightarrow> state \<Rightarrow> (player \<times> nat option \<times> jsnum option) list" where
  "search_input x q st =
     map (\<lambda>p. (p, zRevRank (leaderboard st) (string_of_nat (p_id p)),
                  zScore (leaderboard st) (string_of_nat (p_id p)))) (search_matches x q st)"

definition healed :: "(player \<times> nat option \<times> jsnum option) list \<Rightarrow> string set" where
  "healed l = {string_of_nat (p_id (fst e)) | e. e \<in> set l \<and> fst (snd e) = None}"

text \<open>
  The parts of \<open>getSearchResults\<close>: what the callbacks read, the pushes of the inner
  callbacks, and the result of the player number \<open>i\<close>.
\<close>

definition lookups :: "state \<Rightarrow> player list \<Rightarrow> lookup option list" where
  "lookups st ps = map (\<lambda>c. case c of None \<Rightarrow> None | Some p \<Rightarrow> look_up st p) (fst (claim_players ps []))"

definition pushes :: "env \<Rightarrow> state \<Rightarrow> player list \<Rightarrow> (nat \<times> side \<times> neighbour) list" where
  "pushes x st ps =
     snd (foldl (candidate x st (lookups st ps)) (snd (claim_players ps []), [])
            (completion x (tasks (lookups st ps))))"

definition result_at :: "lookup option list \<Rightarrow> (nat \<times> side \<times> neighbour) list \<Rightarrow> nat \<Rightarrow> search_result list" where
  "result_at ls out i =
     (case ls ! i of
        None \<Rightarrow> []
      | Some l \<Rightarrow>
          [\<lparr>r_id = string_of_nat (p_id (l_player l)),
            r_ranking = l_rank l + 1,
            r_playerName = p_name (l_player l),
            r_country = p_country (l_player l),
            r_countryCode = p_country_code (l_player l),
            r_money = l_money l,
            prevPlayers = pushed out i Prev,
            nextPlayers = pushed out i Next\<rparr>])"

text \<open>The ids a search result shows: its own and those of its two neighbour lists.\<close>

definition result_ids :: "search_result \<Rightarrow> string list" where
  "result_ids r = r_id r # map n_id (prevPlayers r) @ map n_id (nextPlayers r)"

text \<open>The ids of the pushes, of the players that claimed a place, of those with a rank.\<close>

definition out_ids :: "(nat \<times> side \<times> neighbour) list \<Rightarrow> string list" where
  "out_ids out = map (\<lambda>e. n_id (snd (snd e))) out"

definition searched_ids :: "player option list \<Rightarrow> string list" where
  "searched_ids claimed = concat (map (\<lambda>c. case c of None \<Rightarrow> [] | Some p \<Rightarrow> [string_of_nat (p_id p)]) claimed)"

definition found_ids :: "lookup option list \<Rightarrow> string list" where
  "found_ids ls = concat (map (\<lambda>c. case c of None \<Rightarrow> [] | Some l \<Rightarrow> [string_of_nat (p_id (l_player l))]) ls)"

text \<open>
  A push is sound when it is an entry of the window of its player, with the ranking of its
  position, on the side of the rank its position is on, and with the profile of the store.
\<close>

definition sound_push :: "env \<Rightarrow> state \<Rightarrow> lookup option list \<Rightarrow> nat \<times> side \<times> neighbour \<Rightarrow> bool" where
  "sound_push x st ls e =
     (case e of (i, s, n) \<Rightarrow>
        i < length ls \<and>
        (case ls ! i of
           None \<Rightarrow> False
         | Some l \<Rightarrow>
             (\<exists>k < length (l_surrounding l).
                l_surrounding l ! k = (n_id n, n_money n) \<and>
                n_ranking n = l_startRank l + k + 1 \<and>
                (case s of Prev \<Rightarrow> l_startRank l + k < l_rank l | Next \<Rightarrow> l_rank l < l_startRank l + k) \<and>
                d_name (getPlayerDetails x st (n_id n)) = Some (n_playerName n) \<and>
                d_country (getPlayerDetails x st (n_id n)) = Some (n_country n) \<and>
                d_country_code (getPlayerDetails x st (n_id n)) = Some (n_countryCode n))))"

text \<open>The inner callback keeps an entry when none of the three profile fields is \<open>null\<close>.\<close>

definition complete_profile :: "env \<Rightarrow> state \<Rightarrow> string \<Rightarrow> bool" where
  "complete_profile x st m \<longleftrightarrow>
     d_name (getPlayerDetails x st m) \<noteq> None \<and> d_country (getPlayerDetails x st m) \<noteq> None \<and>
     d_country_code (getPlayerDetails x st m) \<noteq> None"

text \<open>The window of 0-based rank \<open>R\<close>: the ranks from \<open>max 0 (R - 3)\<close> to \<open>R + 2\<close>.\<close>

definition window_start :: "nat \<Rightarrow> nat" where
  "window_start R = nat (max 0 (int R - 3))"

definition window :: "state \<Rightarrow> nat \<Rightarrow> (string \<times> jsnum) list" where
  "window st R = zRangeWithScores (leaderboard st) (max 0 (int R - 3)) (int R + 2)"

text \<open>The top-N view of Scenario B.\<close>

definition top_B :: "top_entry list" where
  "top_B = [\<lparr>t_ranking = 1, t_id = ''1'', t_playerName = Some ''Ann'', t_country = Some ''US'',
             t_countryCode = Some ''US'', t_money = Fin 500\<rparr>,
            \<lparr>t_ranking = 2, t_id = ''2'', t_playerName = Some ''Bob'', t_country = Some ''TR'',
             t_countryCode = Some ''TR'', t_money = Fin 300\<rparr>]"

text \<open>The search result for Bob in Scenario B.\<close>

definition bob_result :: search_result where
  "bob_result = \<lparr>r_id = ''2'', r_ranking = 2, r_playerName = ''Bob'', r_country = ''TR'',
       r_countryCode = ''TR'', r_money = Fin 300,
       prevPlayers = [\<lparr>n_ranking = 1, n_id = ''1'', n_playerName = ''Ann'', n_country = ''US'',
                       n_countryCode = ''US'', n_money = Fin 500\<rparr>],
       nextPlayers = []\<rparr>"

section \<open>Properties of the settlement job\<close>

lemma js_add_Fin:
  "js_add s (Fin r) = Some (case s of Fin a \<Rightarrow> Fin (a + r) | NegInf \<Rightarrow> NegInf | PosInf \<Rightarrow> PosInf)"
  by (cases s) simp_all

lemma zIncrBy_Fin: "zIncrBy zs (Fin r) m = Inr (add_reward zs r m)"
  by (simp add: zIncrBy_def js_add_Fin add_reward_def)

lemma reward_loop_Cons:
  "reward_loop P i rem (e # es) zs =
     (case reward_loop P (i + 1) (rem - reward_at P i rem) es (add_reward zs (reward_at P i rem) (fst e)) of
        (zs'', applied, r) \<Rightarrow> (zs'', (fst e, reward_at P i rem) # applied, r))"
  unfolding reward_loop.simps reward_at_def Let_def zIncrBy_Fin by simp

lemma applied_Cons:
  "fst (snd (reward_loop P i rem (e # es) zs)) =
     (fst e, reward_at P i rem) #
     fst (snd (reward_loop P (i + 1) (rem - reward_at P i rem) es (add_reward zs (reward_at P i rem) (fst e))))"
  unfolding reward_loop_Cons by (simp split: prod.splits)

lemma reward_loop_no_error: "snd (snd (reward_loop P i rem es zs)) = None"
proof (induction es arbitrary: i rem zs)
  case Nil
  show ?case by simp
next
  case (Cons e es)
  have "snd (snd (reward_loop P (i + 1) (rem - reward_at P i rem) es
          (add_reward zs (reward_at P i rem) (fst e)))) = None"
    by (rule Cons.IH)
  then show ?case
    unfolding reward_loop_Cons by (auto split: prod.splits)
qed

lemma reward_loop_members: "map fst (fst (snd (reward_loop P i rem es zs))) = map fst es"
proof (induction es arbitrary: i rem zs)
  case Nil
  show ?case by simp
next
  case (Cons e es)
  show ?case unfolding applied_Cons using Cons.IH by simp
qed

lemma reward_loop_nth:
  "k < length es \<Longrightarrow>
   snd (fst (snd (reward_loop P i rem es zs)) ! k) =
     reward_at P (i + k) (rem - sum_list (map snd (take k (fst (snd (reward_loop P i rem es zs))))))"
proof (induction es arbitrary: i rem zs k)
  case Nil
  then show ?case by simp
next
  case (Cons e es)
  show ?case
  proof (cases k)
    case 0
    then show ?thesis unfolding applied_Cons by simp
  next
    case (Suc j)
    with Cons.prems have j: "j < length es" by simp
    show ?thesis
      unfolding applied_Cons Suc using Cons.IH [OF j, of "i + 1"]
      by (simp add: diff_diff_eq)
  qed
qed

lemma reward_loop_tail_sum:
  "3 \<le> i \<Longrightarrow>
   sum_list (map snd (fst (snd (reward_loop P i rem es zs)))) = rem - rem * (1 - 0.00567) ^ length es"
proof (induction es arbitrary: i rem zs)
  case Nil
  then show ?case by simp
next
  case (Cons e es)
  have r: "reward_at P i rem = rem * 0.00567"
    using Cons.prems by (simp add: reward_at_def)
  have "sum_list (map snd (fst (snd (reward_loop P (i + 1) (rem - rem * 0.00567) es
           (add_reward zs (rem * 0.00567) (fst e)))))) =
          (rem - rem * 0.00567) - (rem - rem * 0.00567) * (1 - 0.00567) ^ length es"
    by (rule Cons.IH) (use Cons.prems in simp)
  then show ?case
    unfolding applied_Cons r by (simp add: algebra_simps)
qed

lemma reward_loop_total:
  assumes "3 \<le> length es"
  shows "sum_list (map snd (fst (snd (reward_loop P 0 P es zs)))) =
           P - (1 - 0.2 - 0.15 - 0.1) * P * (1 - 0.00567) ^ (length es - 3)"
proof -
  from assms obtain e0 e1 e2 rest where es: "es = e0 # e1 # e2 # rest"
    by (cases es; cases "tl es"; cases "tl (tl es)") auto
  have r0: "reward_at P 0 x = P * 0.2" and r1: "reward_at P (0 + 1) y = P * 0.15"
    and r2: "reward_at P (0 + 1 + 1) z = P * 0.1" for x y z
    by (simp_all add: reward_at_def rewards_def)
  define rem3 where "rem3 = P - P * 0.2 - P * 0.15 - P * 0.1"
  define zs3 where "zs3 = add_reward (add_reward (add_reward zs (P * 0.2) (fst e0))
                             (P * 0.15) (fst e1)) (P * 0.1) (fst e2)"
  have tail: "sum_list (map snd (fst (snd (reward_loop P (0 + 1 + 1 + 1) rem3 rest zs3)))) =
                rem3 - rem3 * (1 - 0.00567) ^ length rest"
    by (rule reward_loop_tail_sum) simp
  have step: "fst (snd (reward_loop P 0 P es zs)) =
          (fst e0, P * 0.2) # (fst e1, P * 0.15) # (fst e2, P * 0.1) #
          fst (snd (reward_loop P (0 + 1 + 1 + 1) rem3 rest zs3))"
    unfolding es applied_Cons r0 r1 r2 rem3_def zs3_def by (rule refl)
  have "sum_list (map snd (fst (snd (reward_loop P 0 P es zs)))) =
          P * 0.2 + P * 0.15 + P * 0.1 + (rem3 - rem3 * (1 - 0.00567) ^ length rest)"
    unfolding step using tail by simp
  then show ?thesis
    by (simp add: es rem3_def algebra_simps)
qed

lemma reward_loop_store:
  "fst (reward_loop P i rem es zs) = apply_rewards zs (fst (snd (reward_loop P i rem es zs)))"
proof (induction es arbitrary: i rem zs)
  case Nil
  show ?case by (simp add: apply_rewards_def)
next
  case (Cons e es)
  have "fst (reward_loop P i rem (e # es) zs) =
          fst (reward_loop P (i + 1) (rem - reward_at P i rem) es (add_reward zs (reward_at P i rem) (fst e)))"
    unfolding reward_loop_Cons by (simp split: prod.splits)
  also have "\<dots> = apply_rewards (add_reward zs (reward_at P i rem) (fst e))
      (fst (snd (reward_loop P (i + 1) (rem - reward_at P i rem) es (add_reward zs (reward_at P i rem) (fst e)))))"
    by (rule Cons.IH)
  finally show ?case
    unfolding applied_Cons by (simp add: apply_rewards_def)
qed

lemma length_zrev: "length (zrev zs) = length zs"
  by (simp add: zrev_def)

lemma length_top100: "length (zRangeWithScores zs 0 99) = min 100 (length zs)"
  by (auto simp: zRangeWithScores_def Let_def length_zrev)

text \<open>The handler never takes its error branch: it is the loop followed by the reset.\<close>

lemma settlement_eq:
  "settlement st =
     (st\<lparr>leaderboard := fst (reward_loop (pool_value (prize_pool st)) 0 (pool_value (prize_pool st))
                                 (zRangeWithScores (leaderboard st) 0 99) (leaderboard st)),
         prize_pool := Some 0\<rparr>,
      fst (snd (reward_loop (pool_value (prize_pool st)) 0 (pool_value (prize_pool st))
                 (zRangeWithScores (leaderboard st) 0 99) (leaderboard st))))"
proof (cases "zRangeWithScores (leaderboard st) 0 99")
  case Nil
  then show ?thesis by (simp add: settlement_def Let_def)
next
  case (Cons e es)
  have "snd (snd (reward_loop (pool_value (prize_pool st)) 0 (pool_value (prize_pool st)) (e # es) (leaderboard st))) = None"
    by (rule reward_loop_no_error)
  then show ?thesis
    by (auto simp: settlement_def Let_def Cons split: prod.splits option.splits)
qed

lemma top100_two:
  "zRangeWithScores [(''1'', Fin 500), (''2'', Fin 300)] 0 99 = [(''1'', Fin 500), (''2'', Fin 300)]"
  by (simp add: zRangeWithScores_def zrev_def less_eq_prod_def)

lemma settlement_two:
  "settlement \<lparr>players = ps, next_id = n,
       leaderboard = [(''1'', Fin 500), (''2'', Fin 300)], prize_pool = Some 100\<rparr> =
   (\<lparr>players = ps, next_id = n,
       leaderboard = [(''1'', Fin 520), (''2'', Fin 315)], prize_pool = Some 0\<rparr>,
    [(''1'', 20), (''2'', 15)])"
  by (simp add: settlement_def top100_two zIncrBy_def rewards_def pool_value_def)

text \<open>
  C1. A settlement run over pool \<open>P\<close> fetches at most 100 entries and applies one reward to
  each fetched entry, in rank order: \<open>P\<close> times 0.20, 0.15, 0.10 at the 0-based positions
  0, 1, 2, and at every later position 0.00567 times what is left of \<open>P\<close> after the rewards
  applied before it. The Rank Store afterwards is the old one with exactly these increments,
  and the pool is 0. With two ranked players of scores 500 and 300 and a pool of 100, the
  first receives 20, the second 15, nothing else is applied and the pool is 0.
\<close>

theorem settlement_rewards:
  "length (zRangeWithScores (leaderboard st) 0 99) \<le> 100 \<and>
   map fst (snd (settlement st)) = map fst (zRangeWithScores (leaderboard st) 0 99) \<and>
   (\<forall>i < length (zRangeWithScores (leaderboard st) 0 99).
      snd (snd (settlement st) ! i) =
        (if i < 3 then pool_value (prize_pool st) * [0.2, 0.15, 0.1] ! i
         else (pool_value (prize_pool st) - sum_list (map snd (take i (snd (settlement st))))) * 0.00567)) \<and>
   leaderboard (fst (settlement st)) = apply_rewards (leaderboard st) (snd (settlement st)) \<and>
   prize_pool (fst (settlement st)) = Some 0 \<and>
   settlement \<lparr>players = ps, next_id = n,
       leaderboard = [(''1'', Fin 500), (''2'', Fin 300)], prize_pool = Some 100\<rparr> =
     (\<lparr>players = ps, next_id = n,
         leaderboard = [(''1'', Fin 520), (''2'', Fin 315)], prize_pool = Some 0\<rparr>,
      [(''1'', 20), (''2'', 15)])"
proof (intro conjI allI impI)
  show "length (zRangeWithScores (leaderboard st) 0 99) \<le> 100"
    by (simp add: length_top100)
  show "map fst (snd (settlement st)) = map fst (zRangeWithScores (leaderboard st) 0 99)"
    by (simp add: settlement_eq reward_loop_members)
  show "leaderboard (fst (settlement st)) = apply_rewards (leaderboard st) (snd (settlement st))"
    by (simp add: settlement_eq reward_loop_store [symmetric])
  show "prize_pool (fst (settlement st)) = Some 0"
    by (simp add: settlement_eq)
  show "settlement \<lparr>players = ps, next_id = n,
       leaderboard = [(''1'', Fin 500), (''2'', Fin 300)], prize_pool = Some 100\<rparr> =
     (\<lparr>players = ps, next_id = n,
         leaderboard = [(''1'', Fin 520), (''2'', Fin 315)], prize_pool = Some 0\<rparr>,
      [(''1'', 20), (''2'', 15)])"
    by (rule settlement_two)
next
  fix i
  assume i: "i < length (zRangeWithScores (leaderboard st) 0 99)"
  show "snd (snd (settlement st) ! i) =
        (if i < 3 then pool_value (prize_pool st) * [0.2, 0.15, 0.1] ! i
         else (pool_value (prize_pool st) - sum_list (map snd (take i (snd (settlement st))))) * 0.00567)"
    using reward_loop_nth [OF i, of "pool_value (prize_pool st)" 0 "pool_value (prize_pool st)" "leaderboard st"]
    by (simp add: settlement_eq reward_at_def rewards_def)
qed

theorem settlement_rewards_witness:
  "1 < length (zRangeWithScores (leaderboard scenarioB) 0 99) \<and>
   snd (snd (settlement scenarioB) ! 1) = pool_value (prize_pool scenarioB) * [0.2, 0.15, 0.1] ! 1 \<and>
   snd (snd (settlement scenarioB) ! 1) = 15"
proof -
  have l: "1 < length (zRangeWithScores (leaderboard scenarioB) 0 99)"
    by (simp add: scenarioB_def top100_two)
  from settlement_rewards [of scenarioB] l
  have "snd (snd (settlement scenarioB) ! 1) = pool_value (prize_pool scenarioB) * [0.2, 0.15, 0.1] ! 1"
    by simp
  moreover have "pool_value (prize_pool scenarioB) * [0.2, 0.15, 0.1] ! 1 = 15"
    by (simp add: scenarioB_def pool_value_def)
  ultimately show ?thesis using l by simp
qed

text \<open>
  In exact arithmetic the loop over one hundred entries obeys a closed form: its rewards
  sum to \<open>P - (1 - 0.20 - 0.15 - 0.10) * P * (1 - 0.00567) ^ 97\<close>. The program computes
  in double precision and rounds every product and every difference, so this is an identity
  of the formula the loop implements, not of the digits a run produces.
\<close>

lemma reward_sum_exact_arithmetic:
  assumes "100 \<le> length (leaderboard st)"
  shows "length (snd (settlement st)) = 100 \<and>
         sum_list (map snd (snd (settlement st))) =
           pool_value (prize_pool st) -
           (1 - 0.20 - 0.15 - 0.10) * pool_value (prize_pool st) * (1 - 0.00567) ^ 97"
proof -
  have len: "length (zRangeWithScores (leaderboard st) 0 99) = 100"
    using assms by (simp add: length_top100)
  have "length (snd (settlement st)) = length (map fst (snd (settlement st)))"
    by simp
  also have "\<dots> = 100"
    unfolding settlement_eq snd_conv reward_loop_members using len by simp
  finally have l: "length (snd (settlement st)) = 100" .
  have "sum_list (map snd (snd (settlement st))) =
          pool_value (prize_pool st) - (1 - 0.2 - 0.15 - 0.1) * pool_value (prize_pool st) *
            (1 - 0.00567) ^ (length (zRangeWithScores (leaderboard st) 0 99) - 3)"
    unfolding settlement_eq snd_conv by (rule reward_loop_total) (simp add: len)
  then show ?thesis
    using l by (simp add: len)
qed

text \<open>
  C9. Every settlement run leaves the pool at 0, whatever it distributed, and touches
  nothing but the Rank Store and the pool. On an empty leaderboard it applies no reward
  and still resets the pool. With three or more entries (at most 100 are fetched) the part
  of the pool that was not distributed is \<open>0.55 * P * 0.99433 ^ (min 100 n - 3)\<close>; it is
  not kept anywhere.
\<close>

theorem settlement_resets_pool:
  "prize_pool (fst (settlement st)) = Some 0 \<and>
   players (fst (settlement st)) = players st \<and>
   next_id (fst (settlement st)) = next_id st \<and>
   (leaderboard st = [] \<longrightarrow> settlement st = (st\<lparr>prize_pool := Some 0\<rparr>, [])) \<and>
   (3 \<le> length (leaderboard st) \<longrightarrow>
      pool_value (prize_pool st) - sum_list (map snd (snd (settlement st))) =
        0.55 * pool_value (prize_pool st) * 0.99433 ^ (min 100 (length (leaderboard st)) - 3))"
proof (intro conjI impI)
  show "prize_pool (fst (settlement st)) = Some 0"
    by (simp add: settlement_eq)
  show "players (fst (settlement st)) = players st"
    by (simp add: settlement_eq)
  show "next_id (fst (settlement st)) = next_id st"
    by (simp add: settlement_eq)
next
  assume "leaderboard st = []"
  then show "settlement st = (st\<lparr>prize_pool := Some 0\<rparr>, [])"
    by (simp add: settlement_def zRangeWithScores_def)
next
  assume n: "3 \<le> length (leaderboard st)"
  have "sum_list (map snd (snd (settlement st))) =
          pool_value (prize_pool st) - (1 - 0.2 - 0.15 - 0.1) * pool_value (prize_pool st) *
            (1 - 0.00567) ^ (length (zRangeWithScores (leaderboard st) 0 99) - 3)"
    unfolding settlement_eq snd_conv by (rule reward_loop_total) (use n in \<open>simp add: length_top100\<close>)
  then show "pool_value (prize_pool st) - sum_list (map snd (snd (settlement st))) =
        0.55 * pool_value (prize_pool st) * 0.99433 ^ (min 100 (length (leaderboard st)) - 3)"
    by (simp add: length_top100)
qed

theorem settlement_resets_pool_witness:
  "leaderboard \<lparr>players = [], next_id = 1, leaderboard = [], prize_pool = Some 7\<rparr> = [] \<and>
   settlement \<lparr>players = [], next_id = 1, leaderboard = [], prize_pool = Some 7\<rparr> =
     (\<lparr>players = [], next_id = 1, leaderboard = [], prize_pool = Some 0\<rparr>, []) \<and>
   3 \<le> length (leaderboard hundred) \<and>
   pool_value (prize_pool hundred) - sum_list (map snd (snd (settlement hundred))) =
     0.55 * 100 * 0.99433 ^ 97"
proof -
  have h: "3 \<le> length (leaderboard hundred)" and m: "min 100 (length (leaderboard hundred)) - 3 = 97"
    by (simp_all add: hundred_def)
  have p: "pool_value (prize_pool hundred) = 100"
    by (simp add: hundred_def pool_value_def)
  from settlement_resets_pool [of hundred] h
  have "pool_value (prize_pool hundred) - sum_list (map snd (snd (settlement hundred))) =
          0.55 * pool_value (prize_pool hundred) * 0.99433 ^ (min 100 (length (leaderboard hundred)) - 3)"
    by blast
  then have a: "pool_value (prize_pool hundred) - sum_list (map snd (snd (settlement hundred))) =
     0.55 * 100 * 0.99433 ^ 97"
    unfolding m p .
  from settlement_resets_pool [of "\<lparr>players = [], next_id = 1, leaderboard = [], prize_pool = Some 7\<rparr>"]
  have "settlement \<lparr>players = [], next_id = 1, leaderboard = [], prize_pool = Some 7\<rparr> =
     (\<lparr>players = [], next_id = 1, leaderboard = [], prize_pool = Some 0\<rparr>, [])"
    by simp
  with a h show ?thesis by simp
qed


section \<open>Properties of recording an earning\<close>

lemma string_of_nat_1: "string_of_nat (Suc 0) = ''1''"
  by (simp add: string_of_nat.simps digit_char_def)










lemma string_of_nat_0: "string_of_nat 0 = ''0''"
  by (simp add: string_of_nat.simps digit_char_def)

lemma string_of_nat_9999: "string_of_nat 9999 = ''9999''"
  by (simp add: string_of_nat.simps digit_char_def)




text \<open>
  In \<open>app.ts\<close> the look-up comes before the two commands: when no row of the Identity Store
  has the requested id, the request changes nothing, and one that passes the validation of
  the body is answered NotFound (one that does not is answered InvalidInput, by the check
  that comes first).
\<close>

lemma earn_unknown_player:
  assumes "findById x st playerId = []"
  shows "snd (earn x playerId amount st) = st \<and>
         fst (earn x playerId amount st) =
           (if \<not> truthy playerId \<or> typeof amount \<noteq> TNumber then BadRequest else NotFound)"
  using assms by (simp add: earn_def)

text \<open>
  C4. The claim fails on the handler of the router module, which has the validation of
  the body and no look-up. No player has the id 9999; the request
  \<open>{"playerId": 9999, "amount": 100}\<close> is answered 200, a member \<open>9999\<close> with score 100 is
  created in the Rank Store and the pool grows by 2. The handler of \<open>app.ts\<close> answers the
  same request NotFound and changes nothing.
\<close>

theorem earn_router_unknown_player:
  "findById std registered (JNum (Fin 9999)) = [] \<and>
   earn_router std (JNum (Fin 9999)) (JNum (Fin 100)) registered =
     (Ok (), registered\<lparr>leaderboard := [(''1'', Fin 0), (''9999'', Fin 100)], prize_pool := Some 2\<rparr>) \<and>
   earn std (JNum (Fin 9999)) (JNum (Fin 100)) registered = (NotFound, registered)"
  by (simp add: earn_router_def earn_def findById_def registered_def std_def string_of_nat_9999
      zIncrBy_def incrByFloat_def pool_value_def)

theorem earn_router_unknown_player_witness:
  "fst (earn_router std (JNum (Fin 9999)) (JNum (Fin 100)) registered) = Ok () \<and>
   zScore (leaderboard (snd (earn_router std (JNum (Fin 9999)) (JNum (Fin 100)) registered))) ''9999'' =
     Some (Fin 100) \<and>
   prize_pool (snd (earn_router std (JNum (Fin 9999)) (JNum (Fin 100)) registered)) = Some 2"
  using earn_router_unknown_player by (simp add: zScore_def)

text \<open>
  C7, as the claim states it, fails: the amount \<open>Infinity\<close> (the body
  \<open>{"playerId": 9999, "amount": 1e999}\<close>) is of type number, passes the validation, and
  the request goes on to the Identity Store, which answers NotFound.
\<close>

theorem earn_infinite_amount_reaches_store:
  "earn std (JNum (Fin 9999)) (JNum PosInf) registered = (NotFound, registered)"
  by (simp add: earn_def findById_def registered_def std_def)

text \<open>
  C7, amended. An amount that is not of type number (a string, a boolean, null, a missing
  field) is rejected with InvalidInput whatever the stores hold, and nothing changes. The
  check is on the type alone: no request with a truthy playerId and an amount of type
  number, finite or not, is answered InvalidInput.
\<close>

theorem earn_rejects_non_number:
  "(typeof amount \<noteq> TNumber \<longrightarrow> earn x playerId amount st = (BadRequest, st)) \<and>
   (truthy playerId \<longrightarrow> fst (earn x playerId (JNum a) st) \<noteq> BadRequest)"
  by (auto simp: earn_def split: sum.splits)

theorem earn_rejects_non_number_witness:
  "typeof (JStr ''100'') \<noteq> TNumber \<and>
   earn std (JNum (Fin 1)) (JStr ''100'') registered = (BadRequest, registered) \<and>
   truthy (JNum (Fin 1)) \<and>
   fst (earn std (JNum (Fin 1)) (JNum PosInf) registered) \<noteq> BadRequest"
  using earn_rejects_non_number [of "JStr ''100''" std "JNum (Fin 1)" registered PosInf]
  by simp

text \<open>
  C10, as the claim states it, fails in its consequence for a player with id 0. The check
  is on the truthiness of the value in the body: the number 0 is rejected, the string
  \<open>'0'\<close> is not empty and passes, selects the row with id 0 and credits the member \<open>0\<close>.
\<close>

theorem earn_string_zero_accepted:
  "findById std zero_row (JStr ''0'') = players zero_row \<and>
   earn std (JNum (Fin 0)) (JNum (Fin 100)) zero_row = (BadRequest, zero_row) \<and>
   earn std (JStr ''0'') (JNum (Fin 100)) zero_row =
     (Ok (), zero_row\<lparr>leaderboard := [(''0'', Fin 100)], prize_pool := Some 2\<rparr>)"
  by (simp add: earn_def findById_def zero_row_def std_def string_of_nat_0
      zIncrBy_def incrByFloat_def pool_value_def)

text \<open>
  C10, amended. A request whose playerId is falsy (the number 0, the empty string, a
  missing field, null, false) is answered InvalidInput, in \<open>app.ts\<close> and in the router
  module alike, whatever the stores hold (a row with id 0 or none) and whatever the amount
  is, and nothing changes; the answer is never NotFound. The string \<open>'0'\<close> is not falsy:
  a request with it and an amount of type number is never answered InvalidInput, and when
  the Identity Store has a row for it and the amount is finite, the request succeeds with
  one \<open>ZINCRBY\<close> of the amount on the member \<open>0\<close>.
\<close>

theorem earn_falsy_player:
  "earn x (JNum (Fin 0)) amount st = (BadRequest, st) \<and>
   earn x (JStr []) amount st = (BadRequest, st) \<and>
   earn x JUndefined amount st = (BadRequest, st) \<and>
   (\<not> truthy playerId \<longrightarrow>
      earn x playerId amount st = (BadRequest, st) \<and>
      earn_router x playerId amount st = (BadRequest, st) \<and>
      fst (earn x playerId amount st) \<noteq> NotFound) \<and>
   truthy (JStr ''0'') \<and>
   fst (earn x (JStr ''0'') (JNum a) st) \<noteq> BadRequest \<and>
   (findById x st (JStr ''0'') \<noteq> [] \<longrightarrow>
      fst (earn x (JStr ''0'') (JNum (Fin a')) st) = Ok () \<and>
      zIncrBy (leaderboard st) (Fin a') ''0'' =
        Inr (leaderboard (snd (earn x (JStr ''0'') (JNum (Fin a')) st))))"
  by (auto simp: earn_def earn_router_def zIncrBy_Fin incrByFloat_def split: sum.splits)

theorem earn_falsy_player_witness:
  "\<not> truthy JNull \<and>
   earn std JNull (JNum (Fin 100)) zero_row = (BadRequest, zero_row) \<and>
   earn_router std JNull (JNum (Fin 100)) zero_row = (BadRequest, zero_row) \<and>
   earn std (JNum (Fin 0)) (JNum (Fin 100)) zero_row = (BadRequest, zero_row) \<and>
   findById std zero_row (JStr ''0'') \<noteq> [] \<and>
   fst (earn std (JStr ''0'') (JNum (Fin 100)) zero_row) = Ok () \<and>
   leaderboard (snd (earn std (JStr ''0'') (JNum (Fin 100)) zero_row)) = [(''0'', Fin 100)]"
proof -
  have f: "findById std zero_row (JStr ''0'') \<noteq> []"
    by (simp add: findById_def zero_row_def std_def string_of_nat_0)
  have z: "zIncrBy (leaderboard zero_row) (Fin 100) ''0'' = Inr [(''0'', Fin 100)]"
    by (simp add: zero_row_def zIncrBy_def)
  from earn_falsy_player [of std "JNum (Fin 100)" zero_row JNull PosInf 100] f z
  show ?thesis by simp
qed

section \<open>Properties of the Rank Store\<close>

lemma index_of_None: "index_of x xs = None \<longleftrightarrow> x \<notin> set xs"
  by (induction xs) auto

lemma set_zrev: "set (zrev zs) = set zs"
  by (simp add: zrev_def)

lemma zRevRank_None: "zRevRank zs m = None \<longleftrightarrow> map_of zs m = None"
  by (simp add: zRevRank_def index_of_None set_zrev map_of_eq_None_iff)

lemma zRange_nonneg:
  "0 \<le> a \<Longrightarrow> 0 \<le> b \<Longrightarrow>
   zRangeWithScores zs a b = take (nat (b - a + 1)) (drop (nat a) (zrev zs))"
  by (auto simp: zRangeWithScores_def Let_def length_zrev min_def)

lemma window_eq:
  "window st R = take (R + 3 - window_start R) (drop (window_start R) (zrev (leaderboard st)))"
proof -
  have "nat (int R + 2 - max 0 (int R - 3) + 1) = R + 3 - window_start R"
    unfolding window_start_def by arith
  then show ?thesis
    unfolding window_def window_start_def by (subst zRange_nonneg) simp_all
qed

lemma window_length: "length (window st R) \<le> 6"
proof -
  have "R + 3 - window_start R \<le> 6"
    unfolding window_start_def by arith
  then show ?thesis
    unfolding window_eq by simp
qed

lemma occurrences_update:
  "occurrences (AList.update k v zs) m = (if k = m \<and> map_of zs m = None then 1 else occurrences zs m)"
  by (induction zs) (auto simp: occurrences_def)

lemma string_of_nat_2: "string_of_nat 2 = ''2''"
  by (simp add: string_of_nat.simps digit_char_def)

lemma zrev_two: "zrev [(''1'', Fin 500), (''2'', Fin 300)] = [(''1'', Fin 500), (''2'', Fin 300)]"
  by (simp add: zrev_def less_eq_prod_def)

section \<open>Properties of the search view\<close>

lemma healed_simps:
  "healed [] = {}"
  "healed ((p, None, s) # l) = insert (string_of_nat (p_id p)) (healed l)"
  "healed ((p, Some r, s) # l) = healed l"
  by (auto simp: healed_def)

lemma callbacks_scores:
  "map_of (fst (search_callbacks x st l zs)) m = (if m \<in> healed l then Some (Fin 0) else map_of zs m)"
proof (induction x st l zs rule: search_callbacks.induct)
  case (1 x st zs)
  show ?case by (simp add: healed_simps)
next
  case (2 x st p score rest zs)
  then show ?case
    by (auto simp: healed_simps zAdd_def update_conv' split: prod.splits)
next
  case (3 x st p rank score rest zs)
  then show ?case
    by (auto simp: healed_simps Let_def split: prod.splits)
qed

lemma callbacks_occurrences:
  "occurrences (fst (search_callbacks x st l zs)) m =
     (if m \<in> healed l \<and> map_of zs m = None then 1 else occurrences zs m)"
proof (induction x st l zs rule: search_callbacks.induct)
  case (1 x st zs)
  show ?case by (simp add: healed_simps)
next
  case (2 x st p score rest zs)
  then show ?case
    by (auto simp: healed_simps zAdd_def update_conv' occurrences_update split: prod.splits)
next
  case (3 x st p rank score rest zs)
  then show ?case
    by (auto simp: healed_simps Let_def split: prod.splits)
qed

lemma callbacks_length: "length (snd (search_callbacks x st l zs)) = length l"
  by (induction x st l zs rule: search_callbacks.induct) (auto simp: Let_def split: prod.splits)

lemma callbacks_unranked:
  "i < length l \<Longrightarrow> fst (snd (l ! i)) = None \<Longrightarrow>
   snd (search_callbacks x st l zs) ! i =
     Inr \<lparr>s_ranking = None, s_playerName = p_name (fst (l ! i)), s_country = p_country (fst (l ! i)),
          s_countryCode = p_country_code (fst (l ! i)), s_money = Fin 0, s_surroundingPlayers = None\<rparr>"
proof (induction x st l zs arbitrary: i rule: search_callbacks.induct)
  case (1 x st zs)
  then show ?case by simp
next
  case (2 x st p score rest zs)
  then show ?case
    by (cases i) (auto split: prod.splits)
next
  case (3 x st p rank score rest zs)
  then show ?case
    by (cases i) (auto simp: Let_def split: prod.splits)
qed

lemma all_fulfilled_Some:
  "all_fulfilled rs = Some vs \<Longrightarrow> length vs = length rs \<and> (\<forall>i < length rs. rs ! i = Inr (vs ! i))"
proof (induction rs arbitrary: vs rule: all_fulfilled.induct)
  case 1
  then show ?case by simp
next
  case (2 e rs)
  then show ?case by simp
next
  case (3 v rs)
  then show ?case by (auto simp: nth_Cons split: nat.splits)
qed

lemma callbacks_all_unranked:
  "\<forall>e \<in> set l. fst (snd e) = None \<Longrightarrow> all_fulfilled (snd (search_callbacks x st l zs)) \<noteq> None"
proof (induction x st l zs rule: search_callbacks.induct)
  case (1 x st zs)
  show ?case by simp
next
  case (2 x st p score rest zs)
  then show ?case by (auto split: prod.splits)
next
  case (3 x st p rank score rest zs)
  then show ?case by simp
qed

lemma leaderboard_search_eq:
  assumes "q \<noteq> []" and "search_matches x q st \<noteq> []"
  shows "leaderboard_search x (Some q) st =
           (case all_fulfilled (snd (search_callbacks x st (search_input x q st) (leaderboard st))) of
              None \<Rightarrow> ServerError | Some results \<Rightarrow> Ok results,
            st\<lparr>leaderboard := fst (search_callbacks x st (search_input x q st) (leaderboard st))\<rparr>)"
  using assms
  by (simp add: leaderboard_search_def search_input_def Let_def split: prod.splits option.splits)

lemma contains_o_Bob: "contains ''o'' ''Bob''" "\<not> contains ''o'' ''Ann''" "\<not> contains ''o'' ''US''" "\<not> contains ''o'' ''TR''"
  by (simp_all add: contains_def)

lemma id_bob: "string_of_nat (p_id bob) = ''2''"
  by (simp add: bob_def string_of_nat_2)

lemma matches_orphan: "search_matches std ''o'' orphan = [bob]"
  by (simp add: search_matches_def orphan_def ann_def bob_def std_def contains_o_Bob)

text \<open>
  The search view repairs the Rank Store. Take a query and a player it matches (a row of
  the Identity Store) that has no Rank Store entry. After the request the Rank Store holds
  exactly one entry for the player's id, with score 0, and the Identity Store is as
  before. Whenever the request answers with results, the one for that player has rank
  \<open>null\<close>, score 0 and no neighbourhood. It does answer with results when no matched
  player has a rank.
\<close>

lemma search_self_heal:
  assumes "q \<noteq> []" and "i < length (search_matches x q st)"
    and "zRevRank (leaderboard st) (string_of_nat (p_id (search_matches x q st ! i))) = None"
  shows "zScore (leaderboard (snd (leaderboard_search x (Some q) st)))
           (string_of_nat (p_id (search_matches x q st ! i))) = Some (Fin 0) \<and>
         length (filter (\<lambda>e. fst e = string_of_nat (p_id (search_matches x q st ! i)))
                   (leaderboard (snd (leaderboard_search x (Some q) st)))) = 1 \<and>
         players (snd (leaderboard_search x (Some q) st)) = players st \<and>
         (\<forall>rs. fst (leaderboard_search x (Some q) st) = Ok rs \<longrightarrow>
            length rs = length (search_matches x q st) \<and>
            rs ! i = \<lparr>s_ranking = None,
                      s_playerName = p_name (search_matches x q st ! i),
                      s_country = p_country (search_matches x q st ! i),
                      s_countryCode = p_country_code (search_matches x q st ! i),
                      s_money = Fin 0, s_surroundingPlayers = None\<rparr>) \<and>
         ((\<forall>p \<in> set (search_matches x q st). zRevRank (leaderboard st) (string_of_nat (p_id p)) = None) \<longrightarrow>
            (\<exists>rs. fst (leaderboard_search x (Some q) st) = Ok rs))"
proof -
  define l where "l = search_input x q st"
  define m where "m = string_of_nat (p_id (search_matches x q st ! i))"
  have ne: "search_matches x q st \<noteq> []"
    using assms(2) by auto
  have len: "length l = length (search_matches x q st)"
    by (simp add: l_def search_input_def)
  have li: "l ! i = (search_matches x q st ! i, None, zScore (leaderboard st) m)"
    using assms(2,3) by (simp add: l_def search_input_def m_def)
  have "l ! i \<in> set l"
    using assms(2) len by simp
  then have h: "m \<in> healed l"
    unfolding healed_def m_def using li by force
  have absent: "map_of (leaderboard st) m = None"
    using assms(3) by (simp add: zRevRank_None m_def)
  note eq = leaderboard_search_eq [OF assms(1) ne, folded l_def]
  have 1: "zScore (leaderboard (snd (leaderboard_search x (Some q) st))) m = Some (Fin 0)"
    by (simp add: eq zScore_def callbacks_scores h)
  have 2: "length (filter (\<lambda>e. fst e = m) (leaderboard (snd (leaderboard_search x (Some q) st)))) = 1"
    using callbacks_occurrences [of x st l "leaderboard st" m] h absent
    by (simp add: eq occurrences_def)
  have 3: "players (snd (leaderboard_search x (Some q) st)) = players st"
    by (simp add: eq)
  have 4: "length rs = length (search_matches x q st) \<and>
           rs ! i = \<lparr>s_ranking = None,
                      s_playerName = p_name (search_matches x q st ! i),
                      s_country = p_country (search_matches x q st ! i),
                      s_countryCode = p_country_code (search_matches x q st ! i),
                      s_money = Fin 0, s_surroundingPlayers = None\<rparr>"
    if ok: "fst (leaderboard_search x (Some q) st) = Ok rs" for rs
  proof -
    from ok have af: "all_fulfilled (snd (search_callbacks x st l (leaderboard st))) = Some rs"
      by (simp add: eq split: option.splits)
    from all_fulfilled_Some [OF af]
    have lrs: "length rs = length l"
      and nth: "snd (search_callbacks x st l (leaderboard st)) ! i = Inr (rs ! i)"
      using assms(2) len by (simp_all add: callbacks_length)
    have "snd (search_callbacks x st l (leaderboard st)) ! i =
            Inr \<lparr>s_ranking = None, s_playerName = p_name (fst (l ! i)), s_country = p_country (fst (l ! i)),
                 s_countryCode = p_country_code (fst (l ! i)), s_money = Fin 0, s_surroundingPlayers = None\<rparr>"
      by (rule callbacks_unranked) (use assms(2) len li in simp_all)
    with nth lrs len li show ?thesis by simp
  qed
  have 5: "\<exists>rs. fst (leaderboard_search x (Some q) st) = Ok rs"
    if "\<forall>p \<in> set (search_matches x q st). zRevRank (leaderboard st) (string_of_nat (p_id p)) = None"
  proof -
    from that have "\<forall>e \<in> set l. fst (snd e) = None"
      by (auto simp: l_def search_input_def)
    from callbacks_all_unranked [OF this, of x st "leaderboard st"] show ?thesis
      by (auto simp: eq)
  qed
  from 1 2 3 4 5 show ?thesis
    unfolding m_def by blast
qed

lemma search_self_heal_orphan:
  "''o'' \<noteq> [] \<and> 0 < length (search_matches std ''o'' orphan) \<and>
   zRevRank (leaderboard orphan) (string_of_nat (p_id (search_matches std ''o'' orphan ! 0))) = None \<and>
   zScore (leaderboard (snd (leaderboard_search std (Some ''o'') orphan))) ''2'' = Some (Fin 0) \<and>
   fst (leaderboard_search std (Some ''o'') orphan) =
     Ok [\<lparr>s_ranking = None, s_playerName = ''Bob'', s_country = ''TR'', s_countryCode = ''TR'',
          s_money = Fin 0, s_surroundingPlayers = None\<rparr>]"
proof -
  have a: "''o'' \<noteq> []" by simp
  have b: "0 < length (search_matches std ''o'' orphan)"
    by (simp add: matches_orphan)
  have c: "zRevRank (leaderboard orphan) (string_of_nat (p_id (search_matches std ''o'' orphan ! 0))) = None"
    unfolding matches_orphan by (simp add: id_bob zRevRank_def zrev_def orphan_def)
  have all: "\<forall>p \<in> set (search_matches std ''o'' orphan).
               zRevRank (leaderboard orphan) (string_of_nat (p_id p)) = None"
    unfolding matches_orphan by (simp add: id_bob zRevRank_def zrev_def orphan_def)
  note t = search_self_heal [OF a b c]
  from t all obtain rs where rs: "fst (leaderboard_search std (Some ''o'') orphan) = Ok rs"
    by blast
  with t have "length rs = 1" and
    "rs ! 0 = \<lparr>s_ranking = None, s_playerName = ''Bob'', s_country = ''TR'', s_countryCode = ''TR'',
          s_money = Fin 0, s_surroundingPlayers = None\<rparr>"
    by (simp_all add: matches_orphan bob_def)
  then have "rs = [\<lparr>s_ranking = None, s_playerName = ''Bob'', s_country = ''TR'', s_countryCode = ''TR'',
          s_money = Fin 0, s_surroundingPlayers = None\<rparr>]"
    by (cases rs) auto
  with rs t a b c show ?thesis
    by (simp add: matches_orphan id_bob)
qed

lemma id_ann: "string_of_nat (p_id ann) = ''1''"
  by (simp add: ann_def string_of_nat_1)

lemma id_anna: "string_of_nat (p_id anna) = ''2''"
  by (simp add: anna_def string_of_nat_2)

lemma zrev_one: "zrev [(''1'', Fin 500)] = [(''1'', Fin 500)]"
  by (simp add: zrev_def)

lemma rank_orphan: "zRevRank (leaderboard orphan) ''2'' = None"
  by (simp add: zRevRank_def orphan_def zrev_one)

lemma search_o_orphan:
  "leaderboard_search std (Some ''o'') orphan =
     (Ok [\<lparr>s_ranking = None, s_playerName = ''Bob'', s_country = ''TR'', s_countryCode = ''TR'',
           s_money = Fin 0, s_surroundingPlayers = None\<rparr>],
      orphan\<lparr>leaderboard := [(''1'', Fin 500), (''2'', Fin 0)]\<rparr>)"
  using rank_orphan
  by (simp add: leaderboard_search_def matches_orphan id_bob zAdd_def)
     (simp add: orphan_def bob_def)

lemma contains_An: "contains ''An'' ''Ann''" "contains ''An'' ''Anna''"
  by (simp_all add: contains_def)

lemma matches_anns: "search_matches std ''An'' anns = [ann, anna]"
  by (simp add: search_matches_def anns_def std_def) (simp add: ann_def anna_def contains_An)

lemma range_anns: "zRangeWithScores (leaderboard anns) (int 0 - 3) (int 0 + 2) = [(''1'', Fin 500)]"
  by (simp add: zRangeWithScores_def anns_def zrev_one)

lemma row_ann_anns: "getPlayerDetails_row std anns ''1'' = Some ann"
  by (simp add: getPlayerDetails_row_def std_def anns_def ann_def anna_def string_of_nat_1 string_of_nat_2)

lemma ranks_anns: "zRevRank (leaderboard anns) ''1'' = Some 0" "zRevRank (leaderboard anns) ''2'' = None"
  by (simp_all add: zRevRank_def anns_def zrev_one)

lemma search_An_anns:
  "leaderboard_search std (Some ''An'') anns =
     (ServerError, anns\<lparr>leaderboard := [(''1'', Fin 500), (''2'', Fin 0)]\<rparr>)"
  using range_anns
  by (simp add: leaderboard_search_def matches_anns id_ann id_anna ranks_anns window_throws_def
      row_ann_anns zAdd_def)
     (simp add: anns_def)

section \<open>Properties of the search results of the combined view\<close>

lemma out_ids_snoc: "out_ids (out @ [e]) = out_ids out @ [n_id (snd (snd e))]"
  by (simp add: out_ids_def)

lemma candidate_step:
  "candidate x st ls (inc, out) t = (inc, out) \<or>
   (\<exists>e. candidate x st ls (inc, out) t = (inc @ [n_id (snd (snd e))], out @ [e]) \<and>
        n_id (snd (snd e)) \<notin> set inc \<and> sound_push x st ls e)"
  unfolding candidate_def sound_push_def Let_def
  by (auto split: prod.splits option.splits simp: prod_eq_iff)

lemma foldl_candidate_inv:
  assumes "foldl (candidate x st ls) (inc0, []) ts = (inc, out)"
  shows "inc = inc0 @ out_ids out \<and> (distinct inc0 \<longrightarrow> distinct inc) \<and> (\<forall>e \<in> set out. sound_push x st ls e)"
  using assms
proof (induction ts arbitrary: inc out rule: rev_induct)
  case Nil
  then show ?case by (simp add: out_ids_def)
next
  case (snoc t ts)
  obtain inc1 out1 where f: "foldl (candidate x st ls) (inc0, []) ts = (inc1, out1)"
    by (cases "foldl (candidate x st ls) (inc0, []) ts") auto
  note ih = snoc.IH [OF f]
  from snoc.prems f have c: "candidate x st ls (inc1, out1) t = (inc, out)"
    by simp
  from candidate_step [of x st ls inc1 out1 t] show ?case
  proof
    assume "candidate x st ls (inc1, out1) t = (inc1, out1)"
    with c have "inc = inc1" and "out = out1" by simp_all
    with ih show ?thesis by blast
  next
    assume "\<exists>e. candidate x st ls (inc1, out1) t = (inc1 @ [n_id (snd (snd e))], out1 @ [e]) \<and>
        n_id (snd (snd e)) \<notin> set inc1 \<and> sound_push x st ls e"
    then obtain e where e: "candidate x st ls (inc1, out1) t = (inc1 @ [n_id (snd (snd e))], out1 @ [e])"
      and new: "n_id (snd (snd e)) \<notin> set inc1" and s: "sound_push x st ls e"
      by blast
    from c e have "inc = inc1 @ [n_id (snd (snd e))]" and "out = out1 @ [e]"
      by simp_all
    with ih new s show ?thesis
      by (auto simp: out_ids_snoc)
  qed
qed

lemma searched_ids_simps:
  "searched_ids [] = []"
  "searched_ids (None # r) = searched_ids r"
  "searched_ids (Some p # r) = string_of_nat (p_id p) # searched_ids r"
  by (simp_all add: searched_ids_def)

lemma claim_players_Cons:
  "claim_players (p # ps) inc =
     (if string_of_nat (p_id p) \<in> set inc
      then (None # fst (claim_players ps inc), snd (claim_players ps inc))
      else (Some p # fst (claim_players ps (inc @ [string_of_nat (p_id p)])),
            snd (claim_players ps (inc @ [string_of_nat (p_id p)]))))"
  by (simp split: prod.splits)

lemma claim_players_inc:
  "snd (claim_players ps inc) = inc @ searched_ids (fst (claim_players ps inc))"
  by (induction ps arbitrary: inc) (simp_all add: searched_ids_simps claim_players_Cons del: claim_players.simps(2))

lemma claim_players_set:
  "set (snd (claim_players ps inc)) = set inc \<union> (\<lambda>p. string_of_nat (p_id p)) ` set ps"
  by (induction ps arbitrary: inc) (auto simp: claim_players_Cons simp del: claim_players.simps(2))

lemma claim_players_distinct:
  "distinct inc \<Longrightarrow> distinct (snd (claim_players ps inc))"
  by (induction ps arbitrary: inc) (simp_all add: claim_players_Cons del: claim_players.simps(2))

lemma claim_players_length:
  "length (fst (claim_players ps inc)) = length ps"
  by (induction ps arbitrary: inc) (simp_all add: claim_players_Cons del: claim_players.simps(2))

lemma claim_players_nth:
  "i < length ps \<Longrightarrow> fst (claim_players ps inc) ! i = Some p \<Longrightarrow> p = ps ! i"
proof (induction ps arbitrary: inc i)
  case Nil
  then show ?case by simp
next
  case (Cons q ps)
  then show ?case
    by (cases i) (auto simp: claim_players_Cons simp del: claim_players.simps(2) split: if_splits)
qed

lemma pushed_sides:
  "mset (map n_id (pushed out i Prev)) + mset (map n_id (pushed out i Next)) =
   mset (out_ids (filter (\<lambda>e. fst e = i) out))"
proof (induction out)
  case Nil
  show ?case by (simp add: pushed_def out_ids_def)
next
  case (Cons e out)
  obtain j s n where e: "e = (j, s, n)" by (cases e) auto
  from Cons show ?case
    by (cases s) (auto simp: pushed_def out_ids_def e)
qed

lemma out_ids_split:
  "mset (out_ids (filter (\<lambda>e. fst e < Suc N) out)) =
   mset (out_ids (filter (\<lambda>e. fst e < N) out)) + mset (out_ids (filter (\<lambda>e. fst e = N) out))"
  by (induction out) (auto simp: out_ids_def less_Suc_eq)

lemma results_mset:
  "N \<le> length ls \<Longrightarrow>
   mset (concat (map result_ids (concat (map (result_at ls out) [0..<N])))) \<subseteq>#
     mset (found_ids (take N ls)) + mset (out_ids (filter (\<lambda>e. fst e < N) out))"
proof (induction N)
  case 0
  show ?case by (simp add: found_ids_def out_ids_def)
next
  case (Suc N)
  then have N: "N < length ls" and ih:
    "mset (concat (map result_ids (concat (map (result_at ls out) [0..<N])))) \<subseteq>#
     mset (found_ids (take N ls)) + mset (out_ids (filter (\<lambda>e. fst e < N) out))"
    by simp_all
  have fi: "found_ids (take (Suc N) ls) =
              found_ids (take N ls) @ (case ls ! N of None \<Rightarrow> [] | Some l \<Rightarrow> [string_of_nat (p_id (l_player l))])"
    using N by (simp add: found_ids_def take_Suc_conv_app_nth)
  have here: "mset (concat (map result_ids (result_at ls out N))) \<subseteq>#
                mset (case ls ! N of None \<Rightarrow> [] | Some l \<Rightarrow> [string_of_nat (p_id (l_player l))]) +
                mset (out_ids (filter (\<lambda>e. fst e = N) out))"
    using pushed_sides [of out N]
    by (auto simp: result_at_def result_ids_def split: option.splits)
  have "mset (concat (map result_ids (concat (map (result_at ls out) [0..<Suc N])))) =
          mset (concat (map result_ids (concat (map (result_at ls out) [0..<N])))) +
          mset (concat (map result_ids (result_at ls out N)))"
    by simp
  also have "\<dots> \<subseteq># (mset (found_ids (take N ls)) + mset (out_ids (filter (\<lambda>e. fst e < N) out))) +
       (mset (case ls ! N of None \<Rightarrow> [] | Some l \<Rightarrow> [string_of_nat (p_id (l_player l))]) +
                mset (out_ids (filter (\<lambda>e. fst e = N) out)))"
    by (rule subset_mset.add_mono [OF ih here])
  also have "\<dots> = mset (found_ids (take (Suc N) ls)) + mset (out_ids (filter (\<lambda>e. fst e < Suc N) out))"
    by (simp add: fi out_ids_split)
  finally show ?case .
qed

lemma look_up_Some:
  assumes "look_up st p = Some l"
  shows "l_player l = p"
    and "zRevRank (leaderboard st) (string_of_nat (p_id p)) = Some (l_rank l)"
    and "l_startRank l = nat (max 0 (int (l_rank l) - 3))"
    and "l_surrounding l =
           zRangeWithScores (leaderboard st) (max 0 (int (l_rank l) - 3)) (int (l_rank l) + 2)"
  using assms by (auto simp: look_up_def Let_def max_def split: option.splits)

lemma look_up_None: "look_up st p = None \<longleftrightarrow> zRevRank (leaderboard st) (string_of_nat (p_id p)) = None"
  by (auto simp: look_up_def Let_def split: option.splits)

lemma getSearchResults_eq:
  "getSearchResults x st ps =
     concat (map (result_at (lookups st ps) (pushes x st ps)) [0..<length (lookups st ps)])"
  unfolding getSearchResults_def lookups_def pushes_def result_at_def Let_def
  by (simp add: case_prod_beta)

lemma result_cases:
  assumes "r \<in> set (getSearchResults x st ps)"
  shows "\<exists>i l. i < length (lookups st ps) \<and> lookups st ps ! i = Some l \<and>
           result_at (lookups st ps) (pushes x st ps) i = [r]"
proof -
  from assms obtain i where i: "i < length (lookups st ps)"
    and r: "r \<in> set (result_at (lookups st ps) (pushes x st ps) i)"
    unfolding getSearchResults_eq by auto
  from r obtain l where "lookups st ps ! i = Some l"
    by (cases "lookups st ps ! i") (auto simp: result_at_def)
  with r i show ?thesis
    by (auto simp: result_at_def)
qed

lemma lookups_nth:
  assumes "i < length (lookups st ps)" and "lookups st ps ! i = Some l"
  shows "i < length ps" and "fst (claim_players ps []) ! i = Some (ps ! i)"
    and "look_up st (ps ! i) = Some l"
proof -
  from assms(1) have i: "i < length ps"
    by (simp add: lookups_def claim_players_length)
  from assms i obtain p where c: "fst (claim_players ps []) ! i = Some p" and l: "look_up st p = Some l"
    by (auto simp: lookups_def claim_players_length split: option.splits)
  from claim_players_nth [OF i c] have "p = ps ! i" .
  with i c l show "i < length ps" "fst (claim_players ps []) ! i = Some (ps ! i)" "look_up st (ps ! i) = Some l"
    by simp_all
qed

lemma pushes_inv:
  "snd (claim_players ps []) @ out_ids (pushes x st ps) =
     fst (foldl (candidate x st (lookups st ps)) (snd (claim_players ps []), [])
            (completion x (tasks (lookups st ps))))"
  "distinct (snd (claim_players ps []) @ out_ids (pushes x st ps))"
  "\<forall>e \<in> set (pushes x st ps). sound_push x st (lookups st ps) e"
proof -
  obtain inc out where f:
    "foldl (candidate x st (lookups st ps)) (snd (claim_players ps []), [])
       (completion x (tasks (lookups st ps))) = (inc, out)"
    by (cases "foldl (candidate x st (lookups st ps)) (snd (claim_players ps []), [])
       (completion x (tasks (lookups st ps)))") auto
  have d: "distinct (snd (claim_players ps []))"
    by (rule claim_players_distinct) simp
  from f have p: "pushes x st ps = out"
    by (simp add: pushes_def)
  from foldl_candidate_inv [OF f] d f
  have "inc = snd (claim_players ps []) @ out_ids out" and "distinct inc"
    and "\<forall>e \<in> set out. sound_push x st (lookups st ps) e"
    by blast+
  with f p show "snd (claim_players ps []) @ out_ids (pushes x st ps) =
     fst (foldl (candidate x st (lookups st ps)) (snd (claim_players ps []), [])
            (completion x (tasks (lookups st ps))))"
    "distinct (snd (claim_players ps []) @ out_ids (pushes x st ps))"
    "\<forall>e \<in> set (pushes x st ps). sound_push x st (lookups st ps) e"
    by simp_all
qed

lemma pushed_mem: "n \<in> set (pushed out i s) \<longleftrightarrow> (i, s, n) \<in> set out"
  by (force simp: pushed_def)

lemma subseteq_add_mset: "A \<subseteq># B \<Longrightarrow> A \<subseteq># add_mset a B"
  by (auto simp: subseteq_mset_def le_SucI)

lemma distinct_mset_subseteq:
  assumes "distinct B" and "mset A \<subseteq># mset B"
  shows "distinct A"
proof -
  have "count (mset A) a = (if a \<in> set A then 1 else 0)" for a
  proof (cases "a \<in> set A")
    case True
    then have "0 < count (mset A) a" by simp
    moreover have "count (mset A) a \<le> count (mset B) a"
      using assms(2) by (rule mset_subset_eq_count)
    moreover have "count (mset B) a \<le> 1"
      using assms(1) by (simp add: distinct_count_atmost_1)
    ultimately have "count (mset A) a = 1" by linarith
    then show ?thesis using True by simp
  next
    case False
    then show ?thesis by (simp add: count_eq_zero_iff)
  qed
  then show ?thesis by (simp add: distinct_count_atmost_1)
qed

lemma found_ids_subseteq:
  "mset (found_ids (map (\<lambda>c. case c of None \<Rightarrow> None | Some p \<Rightarrow> look_up st p) claimed)) \<subseteq>#
   mset (searched_ids claimed)"
proof (induction claimed)
  case Nil
  show ?case by (simp add: found_ids_def searched_ids_def)
next
  case (Cons c claimed)
  show ?case
  proof (cases c)
    case None
    with Cons show ?thesis by (simp add: found_ids_def searched_ids_def)
  next
    case (Some p)
    show ?thesis
    proof (cases "look_up st p")
      case None
      with Cons Some show ?thesis
        by (simp add: found_ids_def searched_ids_def subseteq_add_mset)
    next
      case (Some l)
      then have "l_player l = p" by (rule look_up_Some)
      with Cons \<open>c = Some p\<close> Some show ?thesis
        by (simp add: found_ids_def searched_ids_def)
    qed
  qed
qed

lemma out_ids_filter_subseteq: "mset (out_ids (filter P out)) \<subseteq># mset (out_ids out)"
  by (simp add: out_ids_def image_mset_subseteq_mono)

lemma candidate_mono: "set (fst acc) \<subseteq> set (fst (candidate x st ls acc t))"
  using candidate_step [of x st ls "fst acc" "snd acc" t] by auto

lemma foldl_candidate_mono: "set (fst acc) \<subseteq> set (fst (foldl (candidate x st ls) acc ts))"
proof (induction ts arbitrary: acc)
  case Nil
  show ?case by simp
next
  case (Cons t ts)
  from candidate_mono Cons [of "candidate x st ls acc t"] show ?case
    by (simp, blast)
qed

lemma candidate_adds:
  assumes "i < length ls" and "ls ! i = Some l" and "k < length (l_surrounding l)"
    and "complete_profile x st (fst (l_surrounding l ! k))"
    and "l_startRank l + k \<noteq> l_rank l"
  shows "fst (l_surrounding l ! k) \<in> set (fst (candidate x st ls acc (i, k)))"
  using assms unfolding candidate_def complete_profile_def Let_def
  by (cases acc) (auto split: option.splits)

lemma foldl_candidate_complete:
  assumes "(i, k) \<in> set ts"
    and "i < length ls" and "ls ! i = Some l" and "k < length (l_surrounding l)"
    and "complete_profile x st (fst (l_surrounding l ! k))"
    and "l_startRank l + k \<noteq> l_rank l"
  shows "fst (l_surrounding l ! k) \<in> set (fst (foldl (candidate x st ls) acc ts))"
  using assms(1)
proof (induction ts arbitrary: acc)
  case Nil
  then show ?case by simp
next
  case (Cons t ts)
  show ?case
  proof (cases "t = (i, k)")
    case True
    have "fst (l_surrounding l ! k) \<in> set (fst (candidate x st ls acc (i, k)))"
      by (rule candidate_adds [OF assms(2-6)])
    with foldl_candidate_mono [of "candidate x st ls acc (i, k)" x st ls ts] True
    show ?thesis by auto
  next
    case False
    with Cons.prems have "(i, k) \<in> set ts" by simp
    from Cons.IH [OF this] show ?thesis by simp
  qed
qed

lemma tasks_mem:
  "i < length ls \<Longrightarrow> ls ! i = Some l \<Longrightarrow> k < length (l_surrounding l) \<Longrightarrow> (i, k) \<in> set (tasks ls)"
  by (force simp: tasks_def)

lemma out_ids_mem: "(i, s, n) \<in> set out \<Longrightarrow> n_id n \<in> set (out_ids out)"
  by (force simp: out_ids_def)

lemma top_two: "getTopRankingPlayers std scenarioB = Inr top_B"
  by (simp add: getTopRankingPlayers_def scenarioB_def ann_def bob_def std_def zRangeWithScores_def
      zrev_two string_of_nat_1 string_of_nat_2 upt_rec top_B_def)

lemma contains_Bob: "contains ''Bob'' ''Bob''" "\<not> contains ''Bob'' ''Ann''"
  by (simp_all add: contains_def)

lemma matches_two: "name_matches std ''Bob'' scenarioB = [bob]"
  by (simp add: name_matches_def scenarioB_def ann_def bob_def std_def contains_Bob)

lemma rank_bob: "zRevRank (leaderboard scenarioB) ''2'' = Some 1"
  by (simp add: zRevRank_def scenarioB_def zrev_two)

lemma look_up_bob:
  "look_up scenarioB bob = Some \<lparr>l_player = bob, l_rank = 1, l_money = Fin 300, l_startRank = 0,
     l_surrounding = [(''1'', Fin 500), (''2'', Fin 300)]\<rparr>"
  unfolding look_up_def using rank_bob
  by (simp add: bob_def string_of_nat_2 zScore_def zRangeWithScores_def scenarioB_def zrev_two)

lemma details_two:
  "getPlayerDetails std scenarioB ''1'' = \<lparr>d_name = Some ''Ann'', d_country = Some ''US'', d_country_code = Some ''US''\<rparr>"
  "getPlayerDetails std scenarioB ''2'' = \<lparr>d_name = Some ''Bob'', d_country = Some ''TR'', d_country_code = Some ''TR''\<rparr>"
  by (simp_all add: getPlayerDetails_def std_def scenarioB_def ann_def bob_def string_of_nat_1 string_of_nat_2)

lemma completion_std: "completion std ts = ts"
  by (simp add: std_def)

lemma search_bob: "getSearchResults std scenarioB [bob] = [bob_result]"
  unfolding getSearchResults_def
  by (simp add: look_up_bob tasks_def candidate_def details_two pushed_def bob_result_def
      completion_std id_bob upt_rec)
     (simp add: bob_def)

lemma combined_bob:
  "top_ranking_data std (Some ''Bob'') scenarioB =
     Ok \<lparr>topRankingPlayers = top_B, searchResults = Some [bob_result]\<rparr>"
  unfolding top_ranking_data_def
  using rank_bob by (simp add: top_two matches_two search_bob id_bob)

lemma ranked_member_has_result:
  assumes "m \<in> set (snd (claim_players ps []))" and "zRevRank (leaderboard st) m \<noteq> None"
  shows "m \<in> r_id ` set (getSearchResults x st ps)"
proof -
  let ?ls = "lookups st ps" and ?out = "pushes x st ps"
  from assms(1) have "m \<in> set (searched_ids (fst (claim_players ps [])))"
    using claim_players_inc [of ps "[]"] by simp
  then obtain p where pc: "Some p \<in> set (fst (claim_players ps []))" and pm: "string_of_nat (p_id p) = m"
    by (auto simp: searched_ids_def split: option.splits)
  then obtain j where j: "j < length (fst (claim_players ps []))" and cj: "fst (claim_players ps []) ! j = Some p"
    by (metis in_set_conv_nth)
  obtain l' where l': "look_up st p = Some l'"
    using pm assms(2) by (cases "look_up st p") (auto simp: look_up_None)
  have lj: "?ls ! j = Some l'" and jl: "j < length ?ls"
    using j cj l' by (simp_all add: lookups_def)
  have "l_player l' = p" using l' by (rule look_up_Some)
  then have "m \<in> r_id ` set (result_at ?ls ?out j)"
    using lj pm by (simp add: result_at_def)
  then obtain r where "r \<in> set (result_at ?ls ?out j)" and "r_id r = m"
    by auto
  with jl have "r \<in> set (getSearchResults x st ps)"
    unfolding getSearchResults_eq by auto
  with \<open>r_id r = m\<close> show ?thesis
    by blast
qed

lemma result_window:
  assumes "r \<in> set (getSearchResults x st ps)"
  shows "\<exists>R. zRevRank (leaderboard st) (r_id r) = Some R \<and> r_ranking r = R + 1 \<and>
           window st R = take (R + 3 - window_start R) (drop (window_start R) (zrev (leaderboard st))) \<and>
           length (window st R) \<le> 6 \<and>
           (\<forall>n \<in> set (prevPlayers r).
              \<exists>k < length (window st R). window st R ! k = (n_id n, n_money n) \<and>
                 n_ranking n = window_start R + k + 1 \<and> window_start R + k < R) \<and>
           (\<forall>n \<in> set (nextPlayers r).
              \<exists>k < length (window st R). window st R ! k = (n_id n, n_money n) \<and>
                 n_ranking n = window_start R + k + 1 \<and> R < window_start R + k) \<and>
           r_id r \<notin> n_id ` (set (prevPlayers r) \<union> set (nextPlayers r)) \<and>
           ((\<forall>ts. set ts \<subseteq> set (completion x ts)) \<longrightarrow>
              (\<forall>k < length (window st R).
                 window_start R + k \<noteq> R \<longrightarrow> complete_profile x st (fst (window st R ! k)) \<longrightarrow>
                 fst (window st R ! k) \<in> set (concat (map result_ids (getSearchResults x st ps)))))"
proof -
  let ?ls = "lookups st ps" and ?out = "pushes x st ps" and ?inc0 = "snd (claim_players ps [])"
  from result_cases [OF assms] obtain i l where i: "i < length ?ls" and l: "?ls ! i = Some l"
    and ra: "result_at ?ls ?out i = [r]"
    by blast
  from ra l have r_id: "r_id r = string_of_nat (p_id (l_player l))"
    and r_rank: "r_ranking r = l_rank l + 1"
    and r_prev: "prevPlayers r = pushed ?out i Prev"
    and r_next: "nextPlayers r = pushed ?out i Next"
    by (auto simp: result_at_def)
  note ln = lookups_nth [OF i l]
  note lk = look_up_Some [OF ln(3)]
  define R where "R = l_rank l"
  have start: "l_startRank l = window_start R"
    by (simp add: lk(3) window_start_def R_def)
  have surr: "l_surrounding l = window st R"
    by (simp add: lk(4) window_def R_def)
  have 1: "zRevRank (leaderboard st) (r_id r) = Some R"
    by (simp add: r_id lk(1) lk(2) R_def)
  have 2: "r_ranking r = R + 1"
    by (simp add: r_rank R_def)
  have sound: "\<exists>k < length (window st R). window st R ! k = (n_id n, n_money n) \<and>
                 n_ranking n = window_start R + k + 1 \<and>
                 (case s of Prev \<Rightarrow> window_start R + k < R | Next \<Rightarrow> R < window_start R + k)"
    if "(i, s, n) \<in> set ?out" for s n
  proof -
    from that pushes_inv(3) [of x st ps] have "sound_push x st ?ls (i, s, n)"
      by blast
    then show ?thesis
      unfolding sound_push_def using l by (cases s) (auto simp: start surr R_def [symmetric])
  qed
  have 5: "\<exists>k < length (window st R). window st R ! k = (n_id n, n_money n) \<and>
                 n_ranking n = window_start R + k + 1 \<and> window_start R + k < R"
    if "n \<in> set (prevPlayers r)" for n
    using sound [of Prev n] that by (simp add: r_prev pushed_mem)
  have 6: "\<exists>k < length (window st R). window st R ! k = (n_id n, n_money n) \<and>
                 n_ranking n = window_start R + k + 1 \<and> R < window_start R + k"
    if "n \<in> set (nextPlayers r)" for n
    using sound [of Next n] that by (simp add: r_next pushed_mem)
  have claimed: "r_id r \<in> set ?inc0"
    using ln(1) by (simp add: claim_players_set r_id lk(1))
  have 7: "r_id r \<notin> n_id ` (set (prevPlayers r) \<union> set (nextPlayers r))"
  proof
    assume "r_id r \<in> n_id ` (set (prevPlayers r) \<union> set (nextPlayers r))"
    then obtain n s where "(i, s, n) \<in> set ?out" and "n_id n = r_id r"
      by (auto simp: r_prev r_next pushed_mem)
    then have "r_id r \<in> set (out_ids ?out)"
      using out_ids_mem by metis
    with claimed pushes_inv(2) [of ps x st] show False by auto
  qed
  have 8: "fst (window st R ! k) \<in> set (concat (map result_ids (getSearchResults x st ps)))"
    if honest: "\<forall>ts. set ts \<subseteq> set (completion x ts)" and k: "k < length (window st R)"
      and off: "window_start R + k \<noteq> R" and prof: "complete_profile x st (fst (window st R ! k))" for k
  proof -
    let ?m = "fst (window st R ! k)"
    have "(i, k) \<in> set (tasks ?ls)"
      by (rule tasks_mem [OF i l]) (simp add: surr k)
    with honest have "(i, k) \<in> set (completion x (tasks ?ls))" by blast
    from foldl_candidate_complete [OF this i l, of x st "(?inc0, [])"] k off prof
    have "?m \<in> set (fst (foldl (candidate x st ?ls) (?inc0, []) (completion x (tasks ?ls))))"
      by (simp add: surr start R_def)
    then have "?m \<in> set ?inc0 \<union> set (out_ids ?out)"
      using pushes_inv(1) [of ps x st] by (metis set_append)
    then show ?thesis
    proof
      assume "?m \<in> set ?inc0"
      then have "?m \<in> set (searched_ids (fst (claim_players ps [])))"
        using claim_players_inc [of ps "[]"] by simp
      then obtain p where pc: "Some p \<in> set (fst (claim_players ps []))" and pm: "string_of_nat (p_id p) = ?m"
        by (auto simp: searched_ids_def split: option.splits)
      then obtain j where j: "j < length (fst (claim_players ps []))" and cj: "fst (claim_players ps []) ! j = Some p"
        by (metis in_set_conv_nth)
      have "window st R ! k \<in> set (zrev (leaderboard st))"
        using k unfolding window_eq by (metis in_set_dropD in_set_takeD nth_mem)
      then have "?m \<in> fst ` set (leaderboard st)"
        by (auto simp: zrev_def)
      then have "zRevRank (leaderboard st) ?m \<noteq> None"
        by (simp add: zRevRank_None map_of_eq_None_iff)
      then obtain l' where l': "look_up st p = Some l'"
        using pm by (cases "look_up st p") (auto simp: look_up_None)
      have lj: "?ls ! j = Some l'" and jl: "j < length ?ls"
        using j cj l' by (simp_all add: lookups_def)
      have "l_player l' = p" using l' by (rule look_up_Some)
      then have "?m \<in> set (concat (map result_ids (result_at ?ls ?out j)))"
        using lj pm by (simp add: result_at_def result_ids_def)
      with jl show ?thesis
        unfolding getSearchResults_eq by auto
    next
      assume "?m \<in> set (out_ids ?out)"
      then obtain j s n where e: "(j, s, n) \<in> set ?out" and nm: "n_id n = ?m"
        by (auto simp: out_ids_def)
      with pushes_inv(3) [of x st ps] have "sound_push x st ?ls (j, s, n)" by blast
      then obtain l' where jl: "j < length ?ls" and lj: "?ls ! j = Some l'"
        unfolding sound_push_def by (auto split: option.splits)
      have "n \<in> set (pushed ?out j s)"
        using e by (simp add: pushed_mem)
      then have "n_id n \<in> n_id ` set (pushed ?out j s)"
        by (rule imageI)
      then have "?m \<in> set (concat (map result_ids (result_at ?ls ?out j)))"
        using lj nm by (cases s) (simp_all add: result_at_def result_ids_def)
      with jl show ?thesis
        unfolding getSearchResults_eq by auto
    qed
  qed
  from 1 2 window_eq [of st R] window_length [of st R] 5 6 7 8 show ?thesis
    by blast
qed

text \<open>
  The neighbourhoods of \<open>getSearchResults\<close>, where the start of the window is cut at 0.
  Every searched player found in the Rank Store has a search result, and every search
  result \<open>r\<close> belongs to a player found there at a 0-based rank \<open>R\<close>, of which \<open>r\<close> shows
  \<open>R + 1\<close>. The window fetched for it is the contiguous run of the ranking from rank
  \<open>max 0 (R - 3)\<close> to rank \<open>R + 2\<close>, at most 6 entries. Every neighbour listed as
  better-ranked is an entry of this window at a rank before \<open>R\<close>, every neighbour listed
  as worse-ranked an entry at a rank after \<open>R\<close>, each with the ranking of its position;
  the player itself is in neither list. When no inner callback is lost, every entry of
  the window at a rank other than \<open>R\<close> that has a complete profile is shown in the search
  results (as a neighbour, or as a searched player).
\<close>

lemma neighbourhood_window:
  "(\<forall>p \<in> set ps. zRevRank (leaderboard st) (string_of_nat (p_id p)) \<noteq> None \<longrightarrow>
      string_of_nat (p_id p) \<in> r_id ` set (getSearchResults x st ps)) \<and>
   (\<forall>r \<in> set (getSearchResults x st ps).
      \<exists>R. zRevRank (leaderboard st) (r_id r) = Some R \<and> r_ranking r = R + 1 \<and>
           window st R = take (R + 3 - window_start R) (drop (window_start R) (zrev (leaderboard st))) \<and>
           length (window st R) \<le> 6 \<and>
           (\<forall>n \<in> set (prevPlayers r).
              \<exists>k < length (window st R). window st R ! k = (n_id n, n_money n) \<and>
                 n_ranking n = window_start R + k + 1 \<and> window_start R + k < R) \<and>
           (\<forall>n \<in> set (nextPlayers r).
              \<exists>k < length (window st R). window st R ! k = (n_id n, n_money n) \<and>
                 n_ranking n = window_start R + k + 1 \<and> R < window_start R + k) \<and>
           r_id r \<notin> n_id ` (set (prevPlayers r) \<union> set (nextPlayers r)) \<and>
           ((\<forall>ts. set ts \<subseteq> set (completion x ts)) \<longrightarrow>
              (\<forall>k < length (window st R).
                 window_start R + k \<noteq> R \<longrightarrow> complete_profile x st (fst (window st R ! k)) \<longrightarrow>
                 fst (window st R ! k) \<in> set (concat (map result_ids (getSearchResults x st ps))))))"
proof (intro conjI ballI impI)
  fix p
  assume "p \<in> set ps" and "zRevRank (leaderboard st) (string_of_nat (p_id p)) \<noteq> None"
  then show "string_of_nat (p_id p) \<in> r_id ` set (getSearchResults x st ps)"
    by (intro ranked_member_has_result) (simp_all add: claim_players_set)
next
  fix r
  assume "r \<in> set (getSearchResults x st ps)"
  then show "\<exists>R. zRevRank (leaderboard st) (r_id r) = Some R \<and> r_ranking r = R + 1 \<and>
           window st R = take (R + 3 - window_start R) (drop (window_start R) (zrev (leaderboard st))) \<and>
           length (window st R) \<le> 6 \<and>
           (\<forall>n \<in> set (prevPlayers r).
              \<exists>k < length (window st R). window st R ! k = (n_id n, n_money n) \<and>
                 n_ranking n = window_start R + k + 1 \<and> window_start R + k < R) \<and>
           (\<forall>n \<in> set (nextPlayers r).
              \<exists>k < length (window st R). window st R ! k = (n_id n, n_money n) \<and>
                 n_ranking n = window_start R + k + 1 \<and> R < window_start R + k) \<and>
           r_id r \<notin> n_id ` (set (prevPlayers r) \<union> set (nextPlayers r)) \<and>
           ((\<forall>ts. set ts \<subseteq> set (completion x ts)) \<longrightarrow>
              (\<forall>k < length (window st R).
                 window_start R + k \<noteq> R \<longrightarrow> complete_profile x st (fst (window st R ! k)) \<longrightarrow>
                 fst (window st R ! k) \<in> set (concat (map result_ids (getSearchResults x st ps)))))"
    by (rule result_window)
qed

lemma neighbourhood_window_bob:
  "bob_result \<in> set (getSearchResults std scenarioB [bob]) \<and>
   (\<forall>ts. set ts \<subseteq> set (completion std ts)) \<and>
   zRevRank (leaderboard scenarioB) (r_id bob_result) = Some 1 \<and>
   window scenarioB 1 = [(''1'', Fin 500), (''2'', Fin 300)] \<and>
   prevPlayers bob_result =
     [\<lparr>n_ranking = 1, n_id = ''1'', n_playerName = ''Ann'', n_country = ''US'',
       n_countryCode = ''US'', n_money = Fin 500\<rparr>] \<and>
   (\<exists>k < length (window scenarioB 1).
      window scenarioB 1 ! k = (''1'', Fin 500) \<and> 1 = window_start 1 + k + 1 \<and>
      window_start 1 + k < 1) \<and>
   0 < length (window scenarioB 1) \<and> window_start 1 + 0 \<noteq> 1 \<and>
   complete_profile std scenarioB (fst (window scenarioB 1 ! 0)) \<and>
   fst (window scenarioB 1 ! 0) \<in> set (concat (map result_ids (getSearchResults std scenarioB [bob])))"
proof -
  let ?n = "\<lparr>n_ranking = 1, n_id = ''1'', n_playerName = ''Ann'', n_country = ''US'',
       n_countryCode = ''US'', n_money = Fin 500\<rparr>"
  have mem: "bob_result \<in> set (getSearchResults std scenarioB [bob])"
    by (simp add: search_bob)
  have honest: "\<forall>ts. set ts \<subseteq> set (completion std ts)"
    by (simp add: completion_std)
  have rank: "zRevRank (leaderboard scenarioB) (r_id bob_result) = Some 1"
    using rank_bob by (simp add: bob_result_def)
  have w: "window scenarioB 1 = [(''1'', Fin 500), (''2'', Fin 300)]"
    by (simp add: window_eq window_start_def scenarioB_def zrev_two)
  have pv: "prevPlayers bob_result = [?n]"
    by (simp add: bob_result_def)
  have k0: "0 < length (window scenarioB 1)"
    unfolding w by simp
  have off: "window_start 1 + 0 \<noteq> 1"
    by (simp add: window_start_def)
  have prof: "complete_profile std scenarioB (fst (window scenarioB 1 ! 0))"
    unfolding w by (simp add: complete_profile_def details_two)
  from neighbourhood_window [of "[bob]" scenarioB std] mem obtain R where
    R: "zRevRank (leaderboard scenarioB) (r_id bob_result) = Some R"
    and prev: "\<forall>n \<in> set (prevPlayers bob_result).
      \<exists>k < length (window scenarioB R). window scenarioB R ! k = (n_id n, n_money n) \<and>
         n_ranking n = window_start R + k + 1 \<and> window_start R + k < R"
    and full: "(\<forall>ts. set ts \<subseteq> set (completion std ts)) \<longrightarrow>
      (\<forall>k < length (window scenarioB R).
         window_start R + k \<noteq> R \<longrightarrow> complete_profile std scenarioB (fst (window scenarioB R ! k)) \<longrightarrow>
         fst (window scenarioB R ! k) \<in> set (concat (map result_ids (getSearchResults std scenarioB [bob]))))"
    by blast
  from R rank have R1: "R = 1" by simp
  from prev have "\<exists>k < length (window scenarioB 1).
      window scenarioB 1 ! k = (n_id ?n, n_money ?n) \<and> n_ranking ?n = window_start 1 + k + 1 \<and>
      window_start 1 + k < 1"
    unfolding R1 pv by (metis list.set_intros(1))
  then have a: "\<exists>k < length (window scenarioB 1).
      window scenarioB 1 ! k = (''1'', Fin 500) \<and> 1 = window_start 1 + k + 1 \<and>
      window_start 1 + k < 1"
    by simp
  from full honest k0 off prof
  have b: "fst (window scenarioB 1 ! 0) \<in> set (concat (map result_ids (getSearchResults std scenarioB [bob])))"
    unfolding R1 by blast
  from mem honest rank w pv a k0 off prof b show ?thesis
    by blast
qed

lemma top_orphan:
  "getTopRankingPlayers std orphan =
     Inr [\<lparr>t_ranking = 1, t_id = ''1'', t_playerName = Some ''Ann'', t_country = Some ''US'',
           t_countryCode = Some ''US'', t_money = Fin 500\<rparr>]"
  by (simp add: getTopRankingPlayers_def orphan_def ann_def bob_def std_def zRangeWithScores_def
      zrev_one string_of_nat_1 string_of_nat_2)

lemma matches_Bob_orphan: "name_matches std ''Bob'' orphan = [bob]"
  by (simp add: name_matches_def orphan_def ann_def bob_def std_def contains_Bob)

lemma getSearchResults_Nil: "getSearchResults x st [] = []"
  by (simp add: getSearchResults_def tasks_def)

lemma combined_orphan:
  "top_ranking_data std (Some ''Bob'') orphan =
     Ok \<lparr>topRankingPlayers =
           [\<lparr>t_ranking = 1, t_id = ''1'', t_playerName = Some ''Ann'', t_country = Some ''US'',
             t_countryCode = Some ''US'', t_money = Fin 500\<rparr>],
         searchResults = Some []\<rparr>"
  unfolding top_ranking_data_def
  using rank_orphan by (simp add: top_orphan matches_Bob_orphan id_bob getSearchResults_Nil)

text \<open>
  C5. The claim fails on the combined view. Bob is a row of the Identity Store and has no
  Rank Store entry; the query \<open>Bob\<close> matches him. \<open>getSearchResults\<close> drops him: the
  response has no result for him, with rank \<open>null\<close> or otherwise, and the handler sends no
  command that writes to the Rank Store, so his entry is as absent after the request as
  before. The search view, asked for \<open>o\<close> in the same state, answers with rank \<open>null\<close> and
  score 0 for him and inserts the entry with score 0. Its own answer is lost when a
  ranked player matches too: asked for \<open>An\<close> with Ann ranked and Anna not, it inserts the
  entry of Anna and answers 500, because reading the profile of an entry of the window of
  Ann throws.
\<close>

theorem combined_view_drops_unranked:
  "name_matches std ''Bob'' orphan = [bob] \<and>
   zScore (leaderboard orphan) (string_of_nat (p_id bob)) = None \<and>
   top_ranking_data std (Some ''Bob'') orphan =
     Ok \<lparr>topRankingPlayers =
           [\<lparr>t_ranking = 1, t_id = ''1'', t_playerName = Some ''Ann'', t_country = Some ''US'',
             t_countryCode = Some ''US'', t_money = Fin 500\<rparr>],
         searchResults = Some []\<rparr> \<and>
   leaderboard_search std (Some ''o'') orphan =
     (Ok [\<lparr>s_ranking = None, s_playerName = ''Bob'', s_country = ''TR'', s_countryCode = ''TR'',
           s_money = Fin 0, s_surroundingPlayers = None\<rparr>],
      orphan\<lparr>leaderboard := [(''1'', Fin 500), (''2'', Fin 0)]\<rparr>) \<and>
   search_matches std ''An'' anns = [ann, anna] \<and>
   zScore (leaderboard anns) (string_of_nat (p_id anna)) = None \<and>
   leaderboard_search std (Some ''An'') anns =
     (ServerError, anns\<lparr>leaderboard := [(''1'', Fin 500), (''2'', Fin 0)]\<rparr>)"
  by (simp add: matches_Bob_orphan combined_orphan search_o_orphan matches_anns search_An_anns
      id_bob id_anna)
     (simp add: zScore_def orphan_def anns_def)

lemma leaderboard_six:
  "leaderboard six =
     [(''1'', Fin 600), (''2'', Fin 500), (''3'', Fin 400), (''4'', Fin 300), (''5'', Fin 200), (''6'', Fin 100)]"
  by (simp add: six_def)

lemma zrev_six:
  "zrev [(''1'', Fin 600), (''2'', Fin 500), (''3'', Fin 400), (''4'', Fin 300), (''5'', Fin 200), (''6'', Fin 100)] =
     [(''1'', Fin 600), (''2'', Fin 500), (''3'', Fin 400), (''4'', Fin 300), (''5'', Fin 200), (''6'', Fin 100)]"
  by (simp add: zrev_def less_eq_prod_def)

lemma contains_Ann:
  "contains ''Ann'' ''Ann''" "\<not> contains ''Ann'' ''Bob''" "\<not> contains ''Ann'' ''Cid''"
  "\<not> contains ''Ann'' ''Dag''" "\<not> contains ''Ann'' ''Eve''" "\<not> contains ''Ann'' ''Fay''"
  "\<not> contains ''Ann'' ''US''" "\<not> contains ''Ann'' ''TR''" "\<not> contains ''Ann'' ''FR''"
  "\<not> contains ''Ann'' ''NO''" "\<not> contains ''Ann'' ''DE''" "\<not> contains ''Ann'' ''IE''"
  by (simp_all add: contains_def)

lemma matches_six: "search_matches std ''Ann'' six = [ann]"
  by (simp add: search_matches_def six_def ann_def bob_def std_def contains_Ann)

lemma rank_ann_six: "zRevRank (leaderboard six) ''1'' = Some 0"
  by (simp add: zRevRank_def leaderboard_six zrev_six)

lemma range_six: "zRangeWithScores (leaderboard six) (int 0 - 3) (int 0 + 2) = []"
  by (simp add: zRangeWithScores_def leaderboard_six)

lemma search_Ann_six:
  "leaderboard_search std (Some ''Ann'') six =
     (Ok [\<lparr>s_ranking = Some 1, s_playerName = ''Ann'', s_country = ''US'', s_countryCode = ''US'',
           s_money = Fin 600,
           s_surroundingPlayers = Some \<lparr>s_prevPlayers = [], s_nextPlayers = []\<rparr>\<rparr>], six)"
  using range_six
  by (simp add: leaderboard_search_def matches_six id_ann rank_ann_six window_throws_def)
     (simp add: zScore_def six_def ann_def)

lemma look_up_ann_six:
  "look_up six ann =
     Some \<lparr>l_player = ann, l_rank = 0, l_money = Fin 600, l_startRank = 0,
           l_surrounding = [(''1'', Fin 600), (''2'', Fin 500), (''3'', Fin 400)]\<rparr>"
  unfolding look_up_def using rank_ann_six
  by (simp add: id_ann zScore_def zRangeWithScores_def leaderboard_six zrev_six)

lemma contains_Bob_country: "\<not> contains ''Bob'' ''US''" "\<not> contains ''Bob'' ''TR''"
  by (simp_all add: contains_def)

lemma search_matches_Bob: "search_matches std ''Bob'' scenarioB = [bob]"
  by (simp add: search_matches_def scenarioB_def ann_def bob_def std_def contains_Bob
      contains_Bob_country)

lemma range_bob:
  "zRangeWithScores (leaderboard scenarioB) (int 1 - 3) (int 1 + 2) = [(''1'', Fin 500), (''2'', Fin 300)]"
  by (simp add: zRangeWithScores_def scenarioB_def zrev_two)

lemma row_ann: "getPlayerDetails_row std scenarioB ''1'' = Some ann"
  by (simp add: getPlayerDetails_row_def std_def scenarioB_def ann_def bob_def string_of_nat_1
      string_of_nat_2)

lemma search_Bob_B: "leaderboard_search std (Some ''Bob'') scenarioB = (ServerError, scenarioB)"
  using range_bob rank_bob
  by (simp add: leaderboard_search_def search_matches_Bob id_bob window_throws_def row_ann upt_rec)

text \<open>
  C6. The claim fails on the search view, which asks the Rank Store for the ranks from
  \<open>R - 3\<close> to \<open>R + 2\<close> and does not cut the start at 0; a negative start counts from the
  end of the ranking. With six ranked players and a query that matches the first
  (\<open>R = 0\<close>) it asks for the ranks from \<open>-3\<close>, that is 3, to 2 and gets nothing: the answer
  lists no worse-ranked player, where the window from 0 to 2 holds the players of the
  ranks 1 and 2. \<open>getSearchResults\<close> fetches that window for the same player. In
  Scenario B, for Bob at \<open>R = 1\<close>, the search view fetches the ranks from \<open>-2\<close>, that is 0,
  to 3, takes Ann for a better-ranked neighbour, throws on reading her profile, and the
  answer is 500.
\<close>

theorem search_window_not_cut:
  "search_matches std ''Ann'' six = [ann] \<and>
   zRevRank (leaderboard six) (string_of_nat (p_id ann)) = Some 0 \<and>
   zRangeWithScores (leaderboard six) (int 0 - 3) (int 0 + 2) = [] \<and>
   leaderboard_search std (Some ''Ann'') six =
     (Ok [\<lparr>s_ranking = Some 1, s_playerName = ''Ann'', s_country = ''US'', s_countryCode = ''US'',
           s_money = Fin 600,
           s_surroundingPlayers = Some \<lparr>s_prevPlayers = [], s_nextPlayers = []\<rparr>\<rparr>], six) \<and>
   look_up six ann =
     Some \<lparr>l_player = ann, l_rank = 0, l_money = Fin 600, l_startRank = 0,
           l_surrounding = [(''1'', Fin 600), (''2'', Fin 500), (''3'', Fin 400)]\<rparr> \<and>
   zRevRank (leaderboard scenarioB) (string_of_nat (p_id bob)) = Some 1 \<and>
   zRangeWithScores (leaderboard scenarioB) (int 1 - 3) (int 1 + 2) =
     [(''1'', Fin 500), (''2'', Fin 300)] \<and>
   leaderboard_search std (Some ''Bob'') scenarioB = (ServerError, scenarioB)"
  using range_six range_bob
  by (simp add: matches_six id_ann id_bob rank_ann_six rank_bob search_Ann_six look_up_ann_six
      search_Bob_B)

text \<open>
  C8, as the claim states it, fails. In Scenario B the query \<open>Bob\<close> matches the player of
  rank 2; the combined response lists the id \<open>1\<close> in the top-N view and again among the
  better-ranked neighbours of Bob (and the id \<open>2\<close> in the top-N view and as the searched
  player). The set of included ids is created inside \<open>getSearchResults\<close> and never receives
  the ids of the top-N view.
\<close>

theorem combined_view_repeats_id:
  "top_ranking_data std (Some ''Bob'') scenarioB =
     Ok \<lparr>topRankingPlayers = top_B, searchResults = Some [bob_result]\<rparr> \<and>
   ''1'' \<in> set (map t_id top_B) \<and>
   ''1'' \<in> set (map n_id (prevPlayers bob_result))"
  by (simp add: combined_bob) (simp add: top_B_def bob_result_def)

lemma getSearchResults_distinct:
  "distinct (concat (map result_ids (getSearchResults x st ps)))"
proof -
  let ?ls = "lookups st ps" and ?out = "pushes x st ps"
  have "mset (concat (map result_ids (getSearchResults x st ps))) \<subseteq>#
          mset (found_ids (take (length ?ls) ?ls)) +
          mset (out_ids (filter (\<lambda>e. fst e < length ?ls) ?out))"
    unfolding getSearchResults_eq by (rule results_mset) simp
  also have "\<dots> \<subseteq># mset (searched_ids (fst (claim_players ps []))) + mset (out_ids ?out)"
    by (rule subset_mset.add_mono)
       (simp_all add: lookups_def found_ids_subseteq out_ids_filter_subseteq)
  also have "\<dots> = mset (snd (claim_players ps []) @ out_ids ?out)"
    using claim_players_inc [of ps "[]"] by simp
  finally show ?thesis
    using pushes_inv(2) [of ps x st] by (rule distinct_mset_subseteq [rotated])
qed

text \<open>
  C8, amended. Within the search results of a response no player id appears twice: the
  ids of the searched players and of all their neighbour lists are pairwise distinct,
  whatever the order in which the inner callbacks complete. The engine tracks a
  per-request set of the ids it has placed there and skips a candidate whose id is in it.
  The top-N view is outside this set.
\<close>

theorem search_results_distinct:
  "distinct (concat (map result_ids (getSearchResults x st ps))) \<and>
   (\<forall>c rs. top_ranking_data x query st = Ok c \<longrightarrow> searchResults c = Some rs \<longrightarrow>
      distinct (concat (map result_ids rs)))"
proof (intro conjI allI impI)
  show "distinct (concat (map result_ids (getSearchResults x st ps)))"
    by (rule getSearchResults_distinct)
next
  fix c rs
  assume ok: "top_ranking_data x query st = Ok c" and rs: "searchResults c = Some rs"
  from ok rs obtain ps' where "rs = getSearchResults x st ps'"
    unfolding top_ranking_data_def Let_def
    by (auto split: sum.splits option.splits if_splits)
  then show "distinct (concat (map result_ids rs))"
    by (simp add: getSearchResults_distinct)
qed

theorem search_results_distinct_witness:
  "top_ranking_data std (Some ''Bob'') scenarioB =
     Ok \<lparr>topRankingPlayers = top_B, searchResults = Some [bob_result]\<rparr> \<and>
   searchResults \<lparr>topRankingPlayers = top_B, searchResults = Some [bob_result]\<rparr> = Some [bob_result] \<and>
   distinct (concat (map result_ids [bob_result])) \<and>
   concat (map result_ids [bob_result]) = [''2'', ''1'']"
proof -
  have ok: "top_ranking_data std (Some ''Bob'') scenarioB =
     Ok \<lparr>topRankingPlayers = top_B, searchResults = Some [bob_result]\<rparr>"
    by (rule combined_bob)
  have rs: "searchResults \<lparr>topRankingPlayers = top_B, searchResults = Some [bob_result]\<rparr> = Some [bob_result]"
    by simp
  from search_results_distinct [of std scenarioB "[bob]" "Some ''Bob''"] ok rs
  have "distinct (concat (map result_ids [bob_result]))"
    by blast
  moreover have "concat (map result_ids [bob_result]) = [''2'', ''1'']"
    by (simp add: result_ids_def bob_result_def)
  ultimately show ?thesis using ok rs by simp
qed

end
